theory Spec2Isabelle
  imports Main "HOL-Library.Multiset"
begin

section \<open>Data model (types.ts)\<close>

datatype Suit = HEARTS | DIAMONDS | CLUBS | SPADES

datatype Rank = ACE | TWO | THREE | FOUR | FIVE | SIX | SEVEN | EIGHT
  | NINE | TEN | JACK | QUEEN | KING

text \<open>The string value of each enum member, as interpolated into the action log.\<close>

fun suitStr :: "Suit \<Rightarrow> string" where
  "suitStr HEARTS = ''hearts''"
| "suitStr DIAMONDS = ''diamonds''"
| "suitStr CLUBS = ''clubs''"
| "suitStr SPADES = ''spades''"

fun rankStr :: "Rank \<Rightarrow> string" where
  "rankStr ACE = ''A''"
| "rankStr TWO = ''2''"
| "rankStr THREE = ''3''"
| "rankStr FOUR = ''4''"
| "rankStr FIVE = ''5''"
| "rankStr SIX = ''6''"
| "rankStr SEVEN = ''7''"
| "rankStr EIGHT = ''8''"
| "rankStr NINE = ''9''"
| "rankStr TEN = ''10''"
| "rankStr JACK = ''J''"
| "rankStr QUEEN = ''Q''"
| "rankStr KING = ''K''"

text \<open>The field \<open>id\<close> of the interface \<open>Card\<close> is called \<open>card_id\<close> here, because
  \<open>id\<close> is the identity function of HOL.\<close>

record Card =
  card_id :: string
  suit :: Suit
  rank :: Rank
  isFaceUp :: bool

datatype GameStatus = Playing | Paused | Won | Lost | SuitSelection

datatype Turn = Player | AI

record GameState =
  deck :: "Card list"
  playerHand :: "Card list"
  aiHand :: "Card list"
  discardPile :: "Card list"
  currentTurn :: Turn
  status :: GameStatus
  wildSuit :: "Suit option"
  lastAction :: string
  hint :: "string option"

text \<open>Variables that the source calls \<open>card\<close> and \<open>top\<close> are \<open>crd\<close> and \<open>tc\<close> here
  (both names are constants of HOL).\<close>

text \<open>A card read from an empty array is \<open>undefined\<close>; code that goes on to read a
  field of it throws. The model stops with this error value there.\<close>

datatype error = UndefinedCard

section \<open>Legality rule\<close>

text \<open>Modelled from the spec: \<open>isPlayable\<close> is imported from \<open>./utils\<close>, which is not among
  the source files. The spec (section 4.2) gives the rule: a card is playable iff (a) its
  rank is EIGHT, or (b) wildSuit is non-null and the card's suit equals wildSuit, or
  (c) wildSuit is null and the card's suit or rank equals the top card's.\<close>

definition isPlayable :: "Card \<Rightarrow> Card \<Rightarrow> Suit option \<Rightarrow> bool" where
  "isPlayable c tc wild =
     (rank c = EIGHT
      \<or> (wild \<noteq> None \<and> Some (suit c) = wild)
      \<or> (wild = None \<and> (suit c = suit tc \<or> rank c = rank tc)))"

text \<open>\<open>discardPile[discardPile.length - 1]\<close>: \<open>undefined\<close> on an empty pile.\<close>

definition topCard :: "GameState \<Rightarrow> Card option" where
  "topCard st = (if discardPile st = [] then None else Some (last (discardPile st)))"

text \<open>\<open>hand.filter(c => isPlayable(c, top, wildSuit))\<close>. The callback runs once per card
  of the hand, so an empty hand never consults the top card; with cards to check and no
  top card the legality rule has nothing to compare against, and the model stops.\<close>

fun playableCards :: "Card list \<Rightarrow> Card option \<Rightarrow> Suit option \<Rightarrow> error + Card list" where
  "playableCards [] tc wild = Inr []"
| "playableCards (c # cs) None wild = Inl UndefinedCard"
| "playableCards (c # cs) (Some t) wild = Inr (filter (\<lambda>x. isPlayable x t wild) (c # cs))"

section \<open>Engine operations (App.tsx)\<close>

text \<open>Each handler of \<open>App.tsx\<close> is a function from the current state to the next one.
  A handler tests the \<open>gameState\<close> of its closure and then hands \<open>setGameState\<close> an
  updater that receives \<open>prev\<close>; commands are handled one at a time, so both are the same
  state. A handler that returns early leaves the state as it is. The effect that recomputes
  \<open>hint\<close> is no part of these operations: they leave the hint as it is.\<close>

definition checkWin :: "GameState \<Rightarrow> GameStatus option" where
  "checkWin state =
     (if playerHand state = [] then Some Won
      else if aiHand state = [] then Some Lost
      else None)"

text \<open>\<open>const winStatus = checkWin(newState); if (winStatus) newState.status = winStatus\<close>\<close>

definition applyWin :: "GameState \<Rightarrow> GameState" where
  "applyWin newState =
     (case checkWin newState of
        Some winStatus \<Rightarrow> newState\<lparr>status := winStatus\<rparr>
      | None \<Rightarrow> newState)"

definition handleDraw :: "GameState \<Rightarrow> GameState" where
  "handleDraw prev =
     (if status prev \<noteq> Playing \<or> currentTurn prev \<noteq> Player then prev
      else if deck prev = [] then
        prev\<lparr>lastAction := ''Deck empty! Turn skipped.'', currentTurn := AI\<rparr>
      else
        let newDeck = butlast (deck prev);
            drawnCard = (last (deck prev))\<lparr>isFaceUp := True\<rparr>
        in prev\<lparr>deck := newDeck,
                playerHand := playerHand prev @ [drawnCard],
                lastAction := ''You drew a card.'',
                currentTurn := AI\<rparr>)"

definition playCard :: "GameState \<Rightarrow> string \<Rightarrow> error + GameState" where
  "playCard prev cardId =
     (if status prev \<noteq> Playing \<or> currentTurn prev \<noteq> Player then Inr prev
      else case find (\<lambda>c. card_id c = cardId) (playerHand prev) of
        None \<Rightarrow> Inr prev
      | Some crd \<Rightarrow>
          (case topCard prev of
             None \<Rightarrow> Inl UndefinedCard
           | Some tc \<Rightarrow>
               if \<not> isPlayable crd tc (wildSuit prev) then Inr prev
               else if rank crd = EIGHT then
                 Inr (prev\<lparr>status := SuitSelection,
                          playerHand := filter (\<lambda>c. card_id c \<noteq> cardId) (playerHand prev),
                          discardPile := discardPile prev @ [crd\<lparr>isFaceUp := True\<rparr>]\<rparr>)
               else
                 let newHand = filter (\<lambda>c. card_id c \<noteq> cardId) (playerHand prev);
                     newState = prev\<lparr>playerHand := newHand,
                                    discardPile := discardPile prev @ [crd\<lparr>isFaceUp := True\<rparr>],
                                    wildSuit := None,
                                    currentTurn := AI,
                                    lastAction := ''You played '' @ rankStr (rank crd)
                                                  @ '' of '' @ suitStr (suit crd) @ ''.''\<rparr>
                 in Inr (applyWin newState)))"

definition handleSuitSelect :: "GameState \<Rightarrow> Suit \<Rightarrow> GameState" where
  "handleSuitSelect prev s =
     applyWin (prev\<lparr>status := Playing,
                    wildSuit := Some s,
                    currentTurn := AI,
                    lastAction := ''You set the suit to '' @ suitStr s @ ''.''\<rparr>)"

text \<open>The opponent's choice of a wild suit. \<open>suitCounts\<close> is an object used as a
  dictionary from suit strings to counts; its entries are enumerated in the order in which
  the keys were first written (none of the keys is an integer index), so the model is an
  association list in insertion order. \<open>countSuit\<close> is the body of the \<open>forEach\<close>:
  \<open>suitCounts[c.suit] = (suitCounts[c.suit] || 0) + 1\<close>.\<close>

fun countSuit :: "Suit \<Rightarrow> (Suit \<times> nat) list \<Rightarrow> (Suit \<times> nat) list" where
  "countSuit s [] = [(s, 1)]"
| "countSuit s (e # es) =
     (if fst e = s then (fst e, snd e + 1) # es else e # countSuit s es)"

definition suitCounts :: "Card list \<Rightarrow> (Suit \<times> nat) list" where
  "suitCounts newHand = foldl (\<lambda>counts c. countSuit (suit c) counts) [] newHand"

text \<open>\<open>Object.entries(suitCounts).sort((a, b) => b[1] - a[1])[0]?.[0] || Suit.SPADES\<close>.
  \<open>Array.prototype.sort\<close> is stable; the comparator orders by descending count, which is
  ascending order of the negated count.\<close>

definition bestSuit :: "Card list \<Rightarrow> Suit" where
  "bestSuit newHand =
     (case sort_key (\<lambda>e. - int (snd e)) (suitCounts newHand) of
        [] \<Rightarrow> SPADES
      | e # _ \<Rightarrow> fst e)"

text \<open>\<open>const nonEight = playableCards.find(c => c.rank !== Rank.EIGHT);
  const cardToPlay = nonEight || playableCards[0]\<close>, for a non-empty \<open>playableCards\<close>.\<close>

definition cardToPlay :: "Card list \<Rightarrow> Card" where
  "cardToPlay playable =
     (case find (\<lambda>c. rank c \<noteq> EIGHT) playable of
        Some nonEight \<Rightarrow> nonEight
      | None \<Rightarrow> hd playable)"

text \<open>The opponent's move: the body of the effect that runs when the status is playing and
  the turn is the opponent's (the delay before it is not modelled).\<close>

definition aiTurn :: "GameState \<Rightarrow> error + GameState" where
  "aiTurn prev =
     (if \<not> (status prev = Playing \<and> currentTurn prev = AI) then Inr prev
      else case playableCards (aiHand prev) (topCard prev) (wildSuit prev) of
        Inl e \<Rightarrow> Inl e
      | Inr playable \<Rightarrow>
          if playable \<noteq> [] then
            let played = cardToPlay playable;
                newHand = filter (\<lambda>c. card_id c \<noteq> card_id played) (aiHand prev);
                newWildSuit = (if rank played = EIGHT then Some (bestSuit newHand) else None);
                actionText =
                  (if rank played = EIGHT
                   then ''AI played an 8 and set suit to '' @ suitStr (bestSuit newHand) @ ''.''
                   else ''AI played '' @ rankStr (rank played)
                        @ '' of '' @ suitStr (suit played) @ ''.'');
                newState = prev\<lparr>aiHand := newHand,
                               discardPile := discardPile prev @ [played\<lparr>isFaceUp := True\<rparr>],
                               wildSuit := newWildSuit,
                               currentTurn := Player,
                               lastAction := actionText\<rparr>
            in Inr (applyWin newState)
          else if deck prev \<noteq> [] then
            let newDeck = butlast (deck prev);
                drawn = last (deck prev)
            in Inr (prev\<lparr>deck := newDeck,
                         aiHand := aiHand prev @ [drawn\<lparr>isFaceUp := False\<rparr>],
                         currentTurn := Player,
                         lastAction := ''AI drew a card.''\<rparr>)
          else
            Inr (prev\<lparr>currentTurn := Player,
                     lastAction := ''AI deck empty! Turn skipped.''\<rparr>))"

section \<open>Starting a game\<close>

text \<open>The loop of \<open>initGame\<close> that looks for a first discard:
  \<open>while (firstDiscard.rank === Rank.EIGHT) { fullDeck.unshift(firstDiscard);
  firstDiscard = fullDeck.pop()!; }\<close>. After the \<open>unshift\<close> the array is not empty, so
  the \<open>pop\<close> inside the loop always yields a card. The loop may run forever (when every
  card is an EIGHT); not returning is the value \<open>None\<close>.\<close>

partial_function (option) seedLoop :: "Card \<Rightarrow> Card list \<Rightarrow> (Card \<times> Card list) option" where
  "seedLoop firstDiscard fullDeck =
     (if rank firstDiscard = EIGHT
      then seedLoop (last (firstDiscard # fullDeck)) (butlast (firstDiscard # fullDeck))
      else Some (firstDiscard, fullDeck))"

text \<open>\<open>initGame\<close>, with the result of \<open>createDeck()\<close> as its argument (the shuffle is random).
  The first \<open>fullDeck.pop()!\<close> yields \<open>undefined\<close> when fewer than 17 cards were created,
  and \<open>firstDiscard.rank\<close> then throws.\<close>

definition initGame :: "Card list \<Rightarrow> (error + GameState) option" where
  "initGame created =
     (let pHand = map (\<lambda>c. c\<lparr>isFaceUp := True\<rparr>) (take 8 created);
          afterPlayer = drop 8 created;
          aHand = map (\<lambda>c. c\<lparr>isFaceUp := False\<rparr>) (take 8 afterPlayer);
          fullDeck = drop 8 afterPlayer
      in if fullDeck = [] then Some (Inl UndefinedCard)
         else case seedLoop (last fullDeck) (butlast fullDeck) of
           None \<Rightarrow> None
         | Some (firstDiscard, remaining) \<Rightarrow>
             Some (Inr \<lparr>deck = remaining,
                        playerHand = pHand,
                        aiHand = aHand,
                        discardPile = [firstDiscard\<lparr>isFaceUp := True\<rparr>],
                        currentTurn = Player,
                        status = Playing,
                        wildSuit = None,
                        lastAction = ''Game started! Your turn.'',
                        hint = Some ''Match the suit or rank of the top card.''\<rparr>))"

text \<open>Modelled from the spec: \<open>createDeck\<close> is imported from \<open>./utils\<close>, which is not among
  the source files. The spec (section 4.1) says what it returns: exactly one card for each
  of the 52 (suit, rank) pairs, each with a unique id and face down, in some order.\<close>

definition SUITS :: "Suit list" where
  "SUITS = [HEARTS, DIAMONDS, CLUBS, SPADES]"

definition RANKS :: "Rank list" where
  "RANKS = [ACE, TWO, THREE, FOUR, FIVE, SIX, SEVEN, EIGHT, NINE, TEN, JACK, QUEEN, KING]"

definition allPairs :: "(Suit \<times> Rank) list" where
  "allPairs = List.product SUITS RANKS"

definition cardKey :: "Card \<Rightarrow> Suit \<times> Rank" where
  "cardKey c = (suit c, rank c)"

definition isCreatedDeck :: "Card list \<Rightarrow> bool" where
  "isCreatedDeck d =
     ((\<forall>p \<in> set allPairs. count_list (map cardKey d) p = 1)
      \<and> distinct (map card_id d)
      \<and> (\<forall>c \<in> set d. \<not> isFaceUp c))"

section \<open>The states of a game\<close>

text \<open>The state the component starts with (the argument of \<open>useState\<close>), before the
  first \<open>initGame\<close> has run.\<close>

definition initialState :: GameState where
  "initialState =
     \<lparr>deck = [], playerHand = [], aiHand = [], discardPile = [],
      currentTurn = Player, status = Playing, wildSuit = None,
      lastAction = ''Game started! Your turn.'',
      hint = Some ''Match the suit or rank of the top card.''\<rparr>"

text \<open>The states the component can be in: the starting state, every state that \<open>initGame\<close>
  returns (for any list of cards that \<open>createDeck\<close> might give), and every state that one
  of the handlers, the opponent's turn or the hint effect (which only writes \<open>hint\<close>) makes
  from such a state. \<open>handleSuitSelect\<close> is taken in any status, since the function does
  not test it.\<close>

inductive reachable :: "GameState \<Rightarrow> bool" where
  start: "reachable initialState"
| deal: "initGame created = Some (Inr st) \<Longrightarrow> reachable st"
| draw: "reachable st \<Longrightarrow> reachable (handleDraw st)"
| play: "reachable st \<Longrightarrow> playCard st cardId = Inr st' \<Longrightarrow> reachable st'"
| select: "reachable st \<Longrightarrow> reachable (handleSuitSelect st s)"
| opponent: "reachable st \<Longrightarrow> aiTurn st = Inr st' \<Longrightarrow> reachable st'"
| hinted: "reachable st \<Longrightarrow> reachable (st\<lparr>hint := Some h\<rparr>)"

text \<open>What every such state satisfies: when the opponent holds no card, the game is over,
  or it has not been dealt (nobody holds a card and the deck is empty).\<close>

definition opponentInPlay :: "GameState \<Rightarrow> bool" where
  "opponentInPlay st =
     (aiHand st = [] \<longrightarrow>
        status st = Won \<or> status st = Lost
        \<or> (status st = Playing \<and> playerHand st = [] \<and> deck st = []))"

section \<open>The pack of a state\<close>

text \<open>The cards of a state, and the property that they are one full pack: each of the 52
  (suit, rank) pairs on exactly one card, and no card id twice.\<close>

definition allCards :: "GameState \<Rightarrow> Card list" where
  "allCards st = deck st @ playerHand st @ aiHand st @ discardPile st"

definition fullPack :: "Card list \<Rightarrow> bool" where
  "fullPack cs =
     ((\<forall>p \<in> set allPairs. count_list (map cardKey cs) p = 1)
      \<and> distinct (map card_id cs))"

section \<open>The spec's reading of the opponent's suit choice\<close>

definition suitCount :: "Suit \<Rightarrow> Card list \<Rightarrow> nat" where
  "suitCount s hand = length (filter (\<lambda>c. suit c = s) hand)"

text \<open>The choice as the spec words it: the most frequent suit of the hand, the first such
  suit in the enumeration order HEARTS, DIAMONDS, CLUBS, SPADES among equally frequent
  ones, and SPADES for an empty hand.\<close>

definition mostFrequentByEnumOrder :: "Card list \<Rightarrow> Suit" where
  "mostFrequentByEnumOrder hand =
     (if hand = [] then SPADES
      else case find (\<lambda>s. \<forall>s' \<in> set SUITS. suitCount s' hand \<le> suitCount s hand) SUITS of
        Some s \<Rightarrow> s
      | None \<Rightarrow> SPADES)"

section \<open>Example cards and states\<close>

definition mkCard :: "Suit \<Rightarrow> Rank \<Rightarrow> bool \<Rightarrow> Card" where
  "mkCard s r up = \<lparr>card_id = rankStr r @ ''-'' @ suitStr s, suit = s, rank = r, isFaceUp = up\<rparr>"

definition mkState :: "Card list \<Rightarrow> Card list \<Rightarrow> Card list \<Rightarrow> Card list \<Rightarrow> Turn
    \<Rightarrow> GameStatus \<Rightarrow> Suit option \<Rightarrow> GameState" where
  "mkState d ph ah dp t stat w =
     \<lparr>deck = d, playerHand = ph, aiHand = ah, discardPile = dp, currentTurn = t,
      status = stat, wildSuit = w, lastAction = ''Game started! Your turn.'',
      hint = Some ''Match the suit or rank of the top card.''\<rparr>"

definition eightState :: GameState where
  "eightState = mkState [mkCard DIAMONDS NINE False]
     [mkCard SPADES EIGHT True, mkCard CLUBS TWO True] [mkCard CLUBS SIX False]
     [mkCard HEARTS FIVE True] Player Playing (Some DIAMONDS)"

definition sevenState :: GameState where
  "sevenState = mkState [] [mkCard HEARTS SEVEN True] [mkCard CLUBS SIX False]
     [mkCard SPADES SEVEN True] Player Playing None"

definition lastEightState :: GameState where
  "lastEightState = mkState [mkCard DIAMONDS NINE False] [] [mkCard CLUBS SIX False]
     [mkCard HEARTS FIVE True, mkCard SPADES EIGHT True] Player SuitSelection None"

definition tieState :: GameState where
  "tieState = mkState [mkCard DIAMONDS NINE False] [mkCard HEARTS SEVEN True]
     [mkCard CLUBS THREE False, mkCard DIAMONDS THREE False, mkCard SPADES EIGHT False]
     [mkCard HEARTS FIVE True] AI Playing None"

definition tieAfter :: GameState where
  "tieAfter = (mkState [mkCard DIAMONDS NINE False] [mkCard HEARTS SEVEN True]
     [mkCard CLUBS THREE False, mkCard DIAMONDS THREE False]
     [mkCard HEARTS FIVE True, mkCard SPADES EIGHT True] Player Playing (Some CLUBS))
       \<lparr>lastAction := ''AI played an 8 and set suit to clubs.''\<rparr>"

definition loneEightState :: GameState where
  "loneEightState = mkState [mkCard DIAMONDS NINE False] [mkCard HEARTS SEVEN True]
     [mkCard SPADES EIGHT False] [mkCard HEARTS FIVE True] AI Playing None"

definition eightFirst :: "Rank list" where
  "eightFirst = [EIGHT, ACE, TWO, THREE, FOUR, FIVE, SIX, SEVEN, NINE, TEN, JACK, QUEEN, KING]"

definition eightLast :: "Rank list" where
  "eightLast = [ACE, TWO, THREE, FOUR, FIVE, SIX, SEVEN, NINE, TEN, JACK, QUEEN, KING, EIGHT]"

definition exampleDeck :: "Card list" where
  "exampleDeck =
     map (\<lambda>r. mkCard HEARTS r False) eightFirst
     @ map (\<lambda>r. mkCard DIAMONDS r False) RANKS
     @ map (\<lambda>r. mkCard CLUBS r False) RANKS
     @ map (\<lambda>r. mkCard SPADES r False) eightLast"

definition exampleStart :: GameState where
  "exampleStart = mkState
     (mkCard SPADES EIGHT False
      # map (\<lambda>r. mkCard DIAMONDS r False)
          [FOUR, FIVE, SIX, SEVEN, EIGHT, NINE, TEN, JACK, QUEEN, KING]
      @ map (\<lambda>r. mkCard CLUBS r False) RANKS
      @ map (\<lambda>r. mkCard SPADES r False)
          [ACE, TWO, THREE, FOUR, FIVE, SIX, SEVEN, NINE, TEN, JACK, QUEEN])
     (map (\<lambda>r. mkCard HEARTS r True) [EIGHT, ACE, TWO, THREE, FOUR, FIVE, SIX, SEVEN])
     (map (\<lambda>r. mkCard HEARTS r False) [NINE, TEN, JACK, QUEEN, KING]
      @ map (\<lambda>r. mkCard DIAMONDS r False) [ACE, TWO, THREE])
     [mkCard SPADES KING True] Player Playing None"

definition exampleSelecting :: GameState where
  "exampleSelecting = mkState (deck exampleStart)
     (map (\<lambda>r. mkCard HEARTS r True) [ACE, TWO, THREE, FOUR, FIVE, SIX, SEVEN])
     (aiHand exampleStart)
     [mkCard SPADES KING True, mkCard HEARTS EIGHT True] Player SuitSelection None"

definition exampleSelected :: GameState where
  "exampleSelected = (mkState (deck exampleStart)
     (map (\<lambda>r. mkCard HEARTS r True) [ACE, TWO, THREE, FOUR, FIVE, SIX, SEVEN])
     (aiHand exampleStart)
     [mkCard SPADES KING True, mkCard HEARTS EIGHT True] AI Playing (Some HEARTS))
       \<lparr>lastAction := ''You set the suit to hearts.''\<rparr>"

section \<open>Helper lemmas\<close>

lemma find_filter_remove1:
  "distinct (map f xs) \<Longrightarrow> find (\<lambda>c. f c = k) xs = Some x
   \<Longrightarrow> filter (\<lambda>c. f c \<noteq> k) xs = remove1 x xs"
proof (induction xs)
  case Nil
  then show ?case by simp
next
  case (Cons a xs)
  show ?case
  proof (cases "f a = k")
    case True
    with Cons.prems have "x = a" by simp
    moreover from True Cons.prems(1) have "\<forall>c \<in> set xs. f c \<noteq> k"
      by (auto simp: image_iff)
    then have "filter (\<lambda>c. f c \<noteq> k) xs = xs" by simp
    ultimately show ?thesis using True by simp
  next
    case False
    with Cons.prems have fx: "find (\<lambda>c. f c = k) xs = Some x" by simp
    then have "f x = k" by (auto simp: find_Some_iff)
    with False have "a \<noteq> x" by auto
    with Cons.IH Cons.prems fx False show ?thesis by simp
  qed
qed

lemma find_Some_props:
  "find P xs = Some x \<Longrightarrow> x \<in> set xs \<and> P x"
  by (auto simp: find_Some_iff)

subsection \<open>The opponent's suit choice\<close>

lemma countSuit_map:
  "distinct F \<Longrightarrow> countSuit s (map (\<lambda>k. (k, f k)) F) =
     (if s \<in> set F then map (\<lambda>k. (k, if k = s then f k + 1 else f k)) F
      else map (\<lambda>k. (k, f k)) F @ [(s, 1)])"
  by (induction F) auto

lemma suitCount_snoc:
  "suitCount k (h @ [c]) = (if suit c = k then suitCount k h + 1 else suitCount k h)"
  by (simp add: suitCount_def)

lemma suitCount_zero: "k \<notin> suit ` set h \<Longrightarrow> suitCount k h = 0"
  by (auto simp: suitCount_def filter_empty_conv)

lemma suitCounts_snoc: "suitCounts (h @ [c]) = countSuit (suit c) (suitCounts h)"
  by (simp add: suitCounts_def)

lemma suitCounts_entries:
  "suitCounts h = map (\<lambda>k. (k, suitCount k h)) (rev (remdups (rev (map suit h))))"
proof (induction h rule: rev_induct)
  case Nil
  show ?case by (simp add: suitCounts_def)
next
  case (snoc c h)
  let ?F = "rev (remdups (rev (map suit h)))"
  have d: "distinct ?F" and sF: "set ?F = suit ` set h" by simp_all
  show ?case
  proof (cases "suit c \<in> set ?F")
    case True
    then have "rev (remdups (rev (map suit (h @ [c])))) = ?F" by simp
    moreover have "countSuit (suit c) (map (\<lambda>k. (k, suitCount k h)) ?F)
        = map (\<lambda>k. (k, suitCount k (h @ [c]))) ?F"
      using True d by (simp add: countSuit_map suitCount_snoc eq_commute)
    ultimately show ?thesis by (simp only: suitCounts_snoc snoc.IH)
  next
    case False
    then have "rev (remdups (rev (map suit (h @ [c])))) = ?F @ [suit c]" by simp
    moreover have "suitCount (suit c) h = 0" using False sF suitCount_zero by blast
    then have "countSuit (suit c) (map (\<lambda>k. (k, suitCount k h)) ?F)
        = map (\<lambda>k. (k, suitCount k (h @ [c]))) (?F @ [suit c])"
      using False d by (auto simp: countSuit_map suitCount_snoc)
    ultimately show ?thesis by (simp only: suitCounts_snoc snoc.IH)
  qed
qed

lemma hd_insort_key:
  "hd (insort_key f e ys) = (if ys = [] \<or> f e \<le> f (hd ys) then e else hd ys)"
  by (cases ys) auto

lemma hd_sort_key_first_min:
  "es \<noteq> [] \<Longrightarrow>
     hd (sort_key f es) \<in> set es
     \<and> (\<forall>y \<in> set es. f (hd (sort_key f es)) \<le> f y)
     \<and> (\<forall>y \<in> set (takeWhile (\<lambda>y. y \<noteq> hd (sort_key f es)) es). f (hd (sort_key f es)) < f y)"
proof (induction es)
  case Nil
  then show ?case by simp
next
  case (Cons e es)
  show ?case
  proof (cases "es = []")
    case True
    then show ?thesis by simp
  next
    case False
    let ?m = "hd (sort_key f es)"
    from False have ne: "sort_key f es \<noteq> []" by (metis length_0_conv length_sort)
    from Cons.IH [OF False] have ih: "?m \<in> set es" "\<forall>y \<in> set es. f ?m \<le> f y"
      "\<forall>y \<in> set (takeWhile (\<lambda>y. y \<noteq> ?m) es). f ?m < f y" by simp_all
    show ?thesis
    proof (cases "f e \<le> f ?m")
      case True
      then have "hd (sort_key f (e # es)) = e" by (simp add: hd_insort_key)
      with True ih show ?thesis by auto
    next
      case False
      then have h: "hd (sort_key f (e # es)) = ?m" using ne by (simp add: hd_insort_key)
      from False have "e \<noteq> ?m" by auto
      with False ih show ?thesis unfolding h by auto
    qed
  qed
qed

lemma takeWhile_first_occurrences:
  "set (takeWhile (\<lambda>x. x \<noteq> b) (rev (remdups (rev xs)))) = set (takeWhile (\<lambda>x. x \<noteq> b) xs)"
proof (induction xs rule: rev_induct)
  case Nil
  show ?case by simp
next
  case (snoc a xs)
  let ?F = "rev (remdups (rev xs))"
  let ?P = "\<lambda>x. x \<noteq> b"
  have sF: "set ?F = set xs" by simp
  have ext: "rev (remdups (rev (xs @ [a]))) = (if a \<in> set xs then ?F else ?F @ [a])"
    by simp
  show ?case
  proof (cases "b \<in> set xs")
    case True
    then have "takeWhile ?P (xs @ [a]) = takeWhile ?P xs"
      by (simp add: takeWhile_append1)
    moreover from True sF have "takeWhile ?P (?F @ [a]) = takeWhile ?P ?F"
      by (auto simp: takeWhile_append1)
    ultimately show ?thesis using snoc.IH by (simp only: ext split: if_splits) simp
  next
    case False
    then have tx: "set (takeWhile ?P (xs @ [a])) = set xs \<union> (if a \<noteq> b then {a} else {})"
      by (subst takeWhile_append2) auto
    from False sF
    have tF: "set (takeWhile ?P (?F @ [a])) = set xs \<union> (if a \<noteq> b then {a} else {})"
      by (subst takeWhile_append2) auto
    from False sF have "takeWhile ?P ?F = ?F"
      by (auto simp: takeWhile_eq_all_conv)
    then have tF0: "set (takeWhile ?P ?F) = set xs" by (simp only: sF)
    show ?thesis
    proof (cases "a \<in> set xs")
      case True
      with False have "a \<noteq> b" by auto
      with True tx have "set (takeWhile ?P (xs @ [a])) = set xs" by auto
      with tF0 True show ?thesis by (simp only: ext if_True)
    next
      case False
      with tx tF show ?thesis by (simp only: ext if_False)
    qed
  qed
qed


lemma bestSuit_empty: "bestSuit [] = SPADES"
  by (simp add: bestSuit_def suitCounts_def)

lemma bestSuit_first_most_frequent:
  assumes "h \<noteq> []"
  shows "bestSuit h \<in> suit ` set h"
    and "\<forall>s. suitCount s h \<le> suitCount (bestSuit h) h"
    and "\<forall>s \<in> set (takeWhile (\<lambda>x. x \<noteq> bestSuit h) (map suit h)).
           suitCount s h < suitCount (bestSuit h) h"
proof -
  let ?F = "rev (remdups (rev (map suit h)))"
  let ?g = "\<lambda>k. (k, suitCount k h)"
  let ?key = "\<lambda>e :: Suit \<times> nat. - int (snd e)"
  let ?E = "map ?g ?F"
  let ?x = "hd (sort_key ?key ?E)"
  have E: "suitCounts h = ?E" by (rule suitCounts_entries)
  have sF: "set ?F = suit ` set h" by simp
  from assms have Ene: "?E \<noteq> []" by simp
  then have "sort_key ?key ?E \<noteq> []" by (metis length_0_conv length_sort)
  then have b: "bestSuit h = fst ?x"
    by (simp only: bestSuit_def E split: list.splits) simp
  from hd_sort_key_first_min [OF Ene, of ?key]
  have m: "?x \<in> set ?E" "\<forall>y \<in> set ?E. ?key ?x \<le> ?key y"
    "\<forall>y \<in> set (takeWhile (\<lambda>y. y \<noteq> ?x) ?E). ?key ?x < ?key y" by blast+
  from m(1) have x: "?x = ?g (bestSuit h)" and bF: "bestSuit h \<in> set ?F"
    unfolding b by auto
  from bF sF show "bestSuit h \<in> suit ` set h" by simp
  have le: "\<forall>k \<in> set ?F. suitCount k h \<le> suitCount (bestSuit h) h"
    using m(2) unfolding x by simp
  show "\<forall>s. suitCount s h \<le> suitCount (bestSuit h) h"
  proof
    fix s
    show "suitCount s h \<le> suitCount (bestSuit h) h"
    proof (cases "s \<in> set ?F")
      case True
      with le show ?thesis by blast
    next
      case False
      with sF have "suitCount s h = 0" using suitCount_zero by blast
      then show ?thesis by simp
    qed
  qed
  have "takeWhile (\<lambda>y. y \<noteq> ?x) ?E = map ?g (takeWhile (\<lambda>k. k \<noteq> bestSuit h) ?F)"
    unfolding x by (simp add: takeWhile_map comp_def)
  with m(3) have "\<forall>k \<in> set (takeWhile (\<lambda>k. k \<noteq> bestSuit h) ?F).
      suitCount k h < suitCount (bestSuit h) h"
    unfolding x by simp
  then show "\<forall>s \<in> set (takeWhile (\<lambda>x. x \<noteq> bestSuit h) (map suit h)).
      suitCount s h < suitCount (bestSuit h) h"
    by (simp only: takeWhile_first_occurrences)
qed

subsection \<open>Full packs\<close>

lemma allPairs_UNIV: "set allPairs = UNIV"
proof -
  have "p \<in> set allPairs" for p
  proof (cases p)
    case (Pair s r)
    then show ?thesis
      by (cases s; cases r) (simp_all add: allPairs_def SUITS_def RANKS_def)
  qed
  then show ?thesis by auto
qed

lemma allPairs_distinct: "distinct allPairs"
  by (simp add: allPairs_def SUITS_def RANKS_def distinct_product)

lemma allPairs_length: "length allPairs = 52"
  by (simp add: allPairs_def SUITS_def RANKS_def)

lemma count_one_distinct:
  assumes "\<forall>p \<in> set allPairs. count_list ks p = 1"
  shows "distinct ks" and "set ks = UNIV" and "length ks = 52"
proof -
  from assms have c: "count_list ks p = 1" for p by (cases p) (auto simp: allPairs_UNIV)
  show d: "distinct ks"
    unfolding distinct_count_atmost_1 using c
    by (metis count_list_0_iff count_mset zero_neq_one)
  show u: "set ks = UNIV"
    using c by (metis UNIV_eq_I count_list_0_iff zero_neq_one)
  have "length ks = card (set ks)" using d by (simp add: distinct_card)
  also have "\<dots> = card (set allPairs)" by (simp only: u allPairs_UNIV)
  also have "\<dots> = 52" using allPairs_distinct allPairs_length by (simp add: distinct_card)
  finally show "length ks = 52" .
qed

lemma fullPack_cong:
  assumes "mset (map cardKey xs) = mset (map cardKey ys)"
    and "mset (map card_id xs) = mset (map card_id ys)"
  shows "fullPack xs = fullPack ys"
proof -
  have "count_list (map cardKey xs) p = count_list (map cardKey ys) p" for p
    using assms(1) by (metis count_mset)
  moreover have "distinct (map card_id xs) = distinct (map card_id ys)"
    using assms(2) by (rule mset_eq_imp_distinct_iff)
  ultimately show ?thesis by (simp add: fullPack_def)
qed

subsection \<open>Starting a game\<close>

lemma seedLoop_returns:
  "\<exists>x \<in> set (c # dk). rank x \<noteq> EIGHT \<Longrightarrow>
     \<exists>c' dk'. seedLoop c dk = Some (c', dk') \<and> rank c' \<noteq> EIGHT
       \<and> mset (c' # dk') = mset (c # dk)"
proof (induction "length (takeWhile (\<lambda>x. rank x = EIGHT) (rev (dk @ [c])))"
    arbitrary: c dk rule: less_induct)
  case less
  show ?case
  proof (cases "rank c = EIGHT")
    case False
    then show ?thesis by (subst seedLoop.simps) simp
  next
    case True
    let ?c = "last (c # dk)" and ?dk = "butlast (c # dk)"
    from True less.prems obtain x where x: "x \<in> set dk" "rank x \<noteq> EIGHT" by auto
    have rot: "?dk @ [?c] = c # dk" by (rule append_butlast_last_id) simp
    from x have "takeWhile (\<lambda>x. rank x = EIGHT) (rev dk @ [c])
        = takeWhile (\<lambda>x. rank x = EIGHT) (rev dk)"
      by (intro takeWhile_append1 [of x]) simp_all
    then have "takeWhile (\<lambda>x. rank x = EIGHT) (rev (?dk @ [?c]))
        = takeWhile (\<lambda>x. rank x = EIGHT) (rev dk)"
      by (simp only: rot rev.simps)
    moreover have "takeWhile (\<lambda>x. rank x = EIGHT) (rev (dk @ [c]))
        = c # takeWhile (\<lambda>x. rank x = EIGHT) (rev dk)"
      using True by simp
    ultimately have dec: "length (takeWhile (\<lambda>x. rank x = EIGHT) (rev (?dk @ [?c])))
        < length (takeWhile (\<lambda>x. rank x = EIGHT) (rev (dk @ [c])))" by simp
    have same: "mset (?c # ?dk) = mset (c # dk)"
      using arg_cong [OF rot, of mset] by simp
    then have "set (?c # ?dk) = set (c # dk)" by (rule mset_eq_setD)
    with less.prems have "\<exists>x \<in> set (?c # ?dk). rank x \<noteq> EIGHT" by simp
    from less.hyps [OF dec this] obtain c' dk' where
      "seedLoop ?c ?dk = Some (c', dk')" "rank c' \<noteq> EIGHT" "mset (c' # dk') = mset (?c # ?dk)"
      by blast
    with same True show ?thesis by (subst seedLoop.simps) simp
  qed
qed


lemma SUITS_UNIV: "set SUITS = UNIV"
proof -
  have "s \<in> set SUITS" for s by (cases s) (simp_all add: SUITS_def)
  then show ?thesis by auto
qed

lemma created_has_non_eight:
  assumes "isCreatedDeck d"
  shows "\<exists>x \<in> set (drop 16 d). rank x \<noteq> EIGHT"
proof (rule ccontr)
  assume "\<not> ?thesis"
  then have all8: "\<forall>x \<in> set (drop 16 d). rank x = EIGHT" by simp
  let ?ks = "map cardKey (drop 16 d)"
  from assms have c1: "\<forall>p \<in> set allPairs. count_list (map cardKey d) p = 1"
    by (simp add: isCreatedDeck_def)
  from count_one_distinct [OF c1] have "distinct (map cardKey d)" "length d = 52" by simp_all
  then have "distinct ?ks" "length ?ks = 36"
    by (simp_all add: drop_map [symmetric] del: distinct_map)
  then have "card (set ?ks) = 36" by (metis distinct_card)
  moreover have "set ?ks \<subseteq> set (map (\<lambda>s. (s, EIGHT)) SUITS)"
    using all8 by (auto simp: cardKey_def SUITS_UNIV)
  then have "card (set ?ks) \<le> card (set (map (\<lambda>s. (s, EIGHT)) SUITS))"
    by (intro card_mono) simp_all
  moreover have "card (set (map (\<lambda>s. (s, EIGHT)) SUITS)) \<le> 4"
    using card_length [of "map (\<lambda>s. (s, EIGHT)) SUITS"] by (simp add: SUITS_def)
  ultimately show False by simp
qed

lemma initGame_created:
  assumes "isCreatedDeck d"
  shows "\<exists>st c. initGame d = Some (Inr st)
    \<and> discardPile st = [c] \<and> rank c \<noteq> EIGHT \<and> isFaceUp c
    \<and> mset (map cardKey (allCards st)) = mset (map cardKey d)
    \<and> mset (map card_id (allCards st)) = mset (map card_id d)
    \<and> playerHand st = map (\<lambda>c. c\<lparr>isFaceUp := True\<rparr>) (take 8 d)
    \<and> aiHand st = map (\<lambda>c. c\<lparr>isFaceUp := False\<rparr>) (take 8 (drop 8 d))
    \<and> length (deck st) = 35
    \<and> currentTurn st = Player \<and> status st = Playing \<and> wildSuit st = None"
proof -
  let ?full = "drop 16 d"
  from assms have c1: "\<forall>p \<in> set allPairs. count_list (map cardKey d) p = 1"
    by (simp add: isCreatedDeck_def)
  from count_one_distinct(3) [OF c1] have len: "length d = 52" by simp
  then have ne: "?full \<noteq> []" by simp
  then have split: "butlast ?full @ [last ?full] = ?full" by (rule append_butlast_last_id)
  from created_has_non_eight [OF assms] split
  have "\<exists>x \<in> set (last ?full # butlast ?full). rank x \<noteq> EIGHT"
    by (metis Un_commute list.set(2) set_append insert_is_Un list.set(1))
  from seedLoop_returns [OF this] obtain c' dk' where
    loop: "seedLoop (last ?full) (butlast ?full) = Some (c', dk')"
    and c': "rank c' \<noteq> EIGHT"
    and perm: "mset (c' # dk') = mset (last ?full # butlast ?full)" by blast
  from perm have perm': "mset (c' # dk') = mset ?full"
    using arg_cong [OF split, of mset] by simp
  then have "length (c' # dk') = length ?full" by (rule mset_eq_length)
  with len have l35: "length dk' = 35" by simp
  define st where
    "st = \<lparr>deck = dk',
           playerHand = map (\<lambda>c. c\<lparr>isFaceUp := True\<rparr>) (take 8 d),
           aiHand = map (\<lambda>c. c\<lparr>isFaceUp := False\<rparr>) (take 8 (drop 8 d)),
           discardPile = [c'\<lparr>isFaceUp := True\<rparr>],
           currentTurn = Player, status = Playing, wildSuit = None,
           lastAction = ''Game started! Your turn.'',
           hint = Some ''Match the suit or rank of the top card.''\<rparr>"
  have run: "initGame d = Some (Inr st)"
    using ne loop by (simp add: initGame_def Let_def st_def)
  have d3: "d = take 8 d @ take 8 (drop 8 d) @ ?full"
    by (metis append_take_drop_id drop_drop numeral_Bit0 one_add_one add.commute
        numeral_plus_numeral semiring_norm(2) semiring_norm(6) mult_2)
  have moved: "mset (map g (allCards st)) = mset (map g d)"
    if g: "\<And>c b. g (c\<lparr>isFaceUp := b\<rparr>) = g c" for g :: "Card \<Rightarrow> 'a"
  proof -
    have "mset (map g (allCards st))
        = image_mset g (mset (c' # dk')) + mset (map g (take 8 d))
          + mset (map g (take 8 (drop 8 d)))"
      by (simp add: allCards_def st_def g comp_def)
    also have "\<dots> = mset (map g ?full) + mset (map g (take 8 d))
          + mset (map g (take 8 (drop 8 d)))"
      by (simp only: perm' mset_map)
    also have "\<dots> = mset (map g (take 8 d @ take 8 (drop 8 d) @ ?full))"
      by simp
    finally show ?thesis using d3 by simp
  qed
  have "mset (map cardKey (allCards st)) = mset (map cardKey d)"
    by (rule moved) (simp add: cardKey_def)
  moreover have "mset (map card_id (allCards st)) = mset (map card_id d)"
    by (rule moved) simp
  ultimately show ?thesis
    using run c' l35 by (intro exI [of _ st] exI [of _ "c'\<lparr>isFaceUp := True\<rparr>"]) (simp add: st_def)
qed


subsection \<open>Moving cards between the collections\<close>

lemma fullPack_faceless_cong:
  assumes "mset (map (\<lambda>c. c\<lparr>isFaceUp := False\<rparr>) xs) = mset (map (\<lambda>c. c\<lparr>isFaceUp := False\<rparr>) ys)"
  shows "fullPack xs = fullPack ys"
proof -
  let ?F = "\<lambda>c :: Card. c\<lparr>isFaceUp := False\<rparr>"
  have k: "map cardKey zs = map cardKey (map ?F zs)" for zs
    by (simp add: cardKey_def)
  have i: "map card_id zs = map card_id (map ?F zs)" for zs
    by simp
  have "mset (map cardKey xs) = mset (map cardKey ys)"
    using arg_cong [OF assms, of "image_mset cardKey"] k [of xs] k [of ys]
    by (simp only: mset_map)
  moreover have "mset (map card_id xs) = mset (map card_id ys)"
    using arg_cong [OF assms, of "image_mset card_id"] i [of xs] i [of ys]
    by (simp only: mset_map)
  ultimately show ?thesis by (rule fullPack_cong)
qed

lemma mset_filter_other_ids:
  "distinct (map card_id xs) \<Longrightarrow> x \<in> set xs
   \<Longrightarrow> mset xs = add_mset x (mset (filter (\<lambda>c. card_id c \<noteq> card_id x) xs))"
proof (induction xs)
  case Nil
  then show ?case by simp
next
  case (Cons a xs)
  show ?case
  proof (cases "a = x")
    case True
    from Cons.prems(1) True have "\<forall>c \<in> set xs. card_id c \<noteq> card_id x"
      by (auto simp: image_iff)
    then have "filter (\<lambda>c. card_id c \<noteq> card_id x) xs = xs" by simp
    with True show ?thesis by simp
  next
    case False
    with Cons.prems have xin: "x \<in> set xs" by simp
    with Cons.prems(1) have "card_id a \<noteq> card_id x" by (auto simp: image_iff)
    with Cons.IH Cons.prems(1) xin show ?thesis by simp
  qed
qed

lemma fullPack_hand_ids:
  assumes "fullPack (allCards st)"
  shows "distinct (map card_id (playerHand st))" and "distinct (map card_id (aiHand st))"
  using assms by (simp_all add: fullPack_def allCards_def)

lemma applyWin_cards:
  "deck (applyWin st) = deck st" "playerHand (applyWin st) = playerHand st"
  "aiHand (applyWin st) = aiHand st" "discardPile (applyWin st) = discardPile st"
  by (simp_all add: applyWin_def split: option.splits)

lemma allCards_applyWin: "allCards (applyWin st) = allCards st"
  by (simp add: allCards_def applyWin_cards)

lemma handleDraw_pack:
  assumes "fullPack (allCards prev)"
  shows "fullPack (allCards (handleDraw prev))"
proof (cases "status prev = Playing \<and> currentTurn prev = Player \<and> deck prev \<noteq> []")
  case False
  then have "allCards (handleDraw prev) = allCards prev"
    by (auto simp: handleDraw_def allCards_def)
  with assms show ?thesis by simp
next
  case True
  then have dk: "butlast (deck prev) @ [last (deck prev)] = deck prev" by simp
  from True have "allCards (handleDraw prev)
      = butlast (deck prev) @ (playerHand prev @ [(last (deck prev))\<lparr>isFaceUp := True\<rparr>])
        @ aiHand prev @ discardPile prev"
    by (simp add: handleDraw_def allCards_def Let_def)
  moreover have "allCards prev
      = (butlast (deck prev) @ [last (deck prev)]) @ playerHand prev @ aiHand prev
        @ discardPile prev"
    by (simp only: dk allCards_def)
  ultimately have "fullPack (allCards (handleDraw prev)) = fullPack (allCards prev)"
    by (intro fullPack_faceless_cong) simp
  with assms show ?thesis by simp
qed

lemma handleDraw_pile: "discardPile (handleDraw prev) = discardPile prev"
  by (simp add: handleDraw_def Let_def)

lemma handleSuitSelect_pack:
  "allCards (handleSuitSelect prev s) = allCards prev"
  "discardPile (handleSuitSelect prev s) = discardPile prev"
  by (simp_all add: handleSuitSelect_def allCards_applyWin applyWin_cards)
     (simp_all add: allCards_def)


lemma played_faceless:
  assumes "distinct (map card_id hand)" and "x \<in> set hand"
  shows "mset (map (\<lambda>c. c\<lparr>isFaceUp := False\<rparr>) (filter (\<lambda>c. card_id c \<noteq> card_id x) hand))
           + {#x\<lparr>isFaceUp := False\<rparr>#}
         = mset (map (\<lambda>c. c\<lparr>isFaceUp := False\<rparr>) hand)"
  using arg_cong [OF mset_filter_other_ids [OF assms], of "image_mset (\<lambda>c. c\<lparr>isFaceUp := False\<rparr>)"]
  by simp

lemma playCard_pack:
  assumes pack: "fullPack (allCards prev)" and top: "discardPile prev \<noteq> []"
  shows "\<exists>st'. playCard prev cardId = Inr st' \<and> fullPack (allCards st') \<and> discardPile st' \<noteq> []"
proof -
  from top obtain tc where tc: "topCard prev = Some tc" by (simp add: topCard_def)
  show ?thesis
  proof (cases "find (\<lambda>c. card_id c = cardId) (playerHand prev)")
    case None
    with pack top show ?thesis by (simp add: playCard_def)
  next
    case (Some crd)
    then have crd: "crd \<in> set (playerHand prev)" "card_id crd = cardId"
      using find_Some_props by fastforce+
    let ?hand = "filter (\<lambda>c. card_id c \<noteq> cardId) (playerHand prev)"
    let ?pile = "discardPile prev @ [crd\<lparr>isFaceUp := True\<rparr>]"
    have moved: "fullPack (deck prev @ ?hand @ aiHand prev @ ?pile)"
    proof -
      have "fullPack (deck prev @ ?hand @ aiHand prev @ ?pile) = fullPack (allCards prev)"
        using played_faceless [OF fullPack_hand_ids(1) [OF pack] crd(1)] crd(2)
        by (intro fullPack_faceless_cong) (simp add: allCards_def)
      with pack show ?thesis by simp
    qed
    show ?thesis
    proof (cases "status prev = Playing \<and> currentTurn prev = Player
        \<and> isPlayable crd tc (wildSuit prev)")
      case False
      with Some tc have "playCard prev cardId = Inr prev"
        by (auto simp: playCard_def)
      with pack top show ?thesis by simp
    next
      case True
      show ?thesis
      proof (cases "rank crd = EIGHT")
        case eight: True
        with True Some tc have "playCard prev cardId = Inr (prev\<lparr>status := SuitSelection,
            playerHand := ?hand, discardPile := ?pile\<rparr>)"
          by (simp add: playCard_def)
        with moved show ?thesis by (simp add: allCards_def)
      next
        case other: False
        define t where "t = ''You played '' @ rankStr (rank crd)
            @ '' of '' @ suitStr (suit crd) @ ''.''"
        from other True Some tc
        have "playCard prev cardId = Inr (applyWin (prev\<lparr>playerHand := ?hand,
            discardPile := ?pile, wildSuit := None, currentTurn := AI, lastAction := t\<rparr>))"
          by (simp add: playCard_def Let_def t_def)
        with moved show ?thesis
          by (simp add: allCards_applyWin applyWin_cards) (simp add: allCards_def)
      qed
    qed
  qed
qed

lemma cardToPlay_in: "playable \<noteq> [] \<Longrightarrow> cardToPlay playable \<in> set playable"
  by (auto simp: cardToPlay_def find_Some_iff split: option.splits)

lemma playableCards_cases:
  "hand = [] \<and> playableCards hand t w = Inr []
   \<or> hand \<noteq> [] \<and> t = None \<and> playableCards hand t w = Inl UndefinedCard
   \<or> hand \<noteq> [] \<and> (\<exists>tc. t = Some tc
        \<and> playableCards hand t w = Inr (filter (\<lambda>x. isPlayable x tc w) hand))"
  by (cases hand; cases t) simp_all

lemma aiTurn_pack:
  assumes pack: "fullPack (allCards prev)" and top: "discardPile prev \<noteq> []"
  shows "\<exists>st'. aiTurn prev = Inr st' \<and> fullPack (allCards st') \<and> discardPile st' \<noteq> []"
proof (cases "status prev = Playing \<and> currentTurn prev = AI")
  case False
  with pack top show ?thesis by (auto simp: aiTurn_def)
next
  case True
  from top have "topCard prev \<noteq> None" by (simp add: topCard_def)
  with playableCards_cases [of "aiHand prev" "topCard prev" "wildSuit prev"]
  obtain playable where pl:
    "playableCards (aiHand prev) (topCard prev) (wildSuit prev) = Inr playable"
    "set playable \<subseteq> set (aiHand prev)" by auto
  show ?thesis
  proof (cases "playable = []")
    case False
    let ?x = "cardToPlay playable"
    let ?hand = "filter (\<lambda>c. card_id c \<noteq> card_id ?x) (aiHand prev)"
    let ?pile = "discardPile prev @ [?x\<lparr>isFaceUp := True\<rparr>]"
    from False pl(2) have xin: "?x \<in> set (aiHand prev)" using cardToPlay_in by blast
    have "fullPack (deck prev @ playerHand prev @ ?hand @ ?pile) = fullPack (allCards prev)"
      using played_faceless [OF fullPack_hand_ids(2) [OF pack] xin]
      by (intro fullPack_faceless_cong) (simp add: allCards_def)
    with pack have moved: "fullPack (deck prev @ playerHand prev @ ?hand @ ?pile)" by simp
    define w where "w = (if rank ?x = EIGHT then Some (bestSuit ?hand) else None)"
    define t where "t = (if rank ?x = EIGHT
        then ''AI played an 8 and set suit to '' @ suitStr (bestSuit ?hand) @ ''.''
        else ''AI played '' @ rankStr (rank ?x) @ '' of '' @ suitStr (suit ?x) @ ''.'')"
    have "aiTurn prev = Inr (applyWin (prev\<lparr>aiHand := ?hand, discardPile := ?pile,
        wildSuit := w, currentTurn := Player, lastAction := t\<rparr>))"
      using True False pl(1) by (simp add: aiTurn_def Let_def w_def t_def)
    with moved show ?thesis
      by (simp add: allCards_applyWin applyWin_cards) (simp add: allCards_def)
  next
    case noPlay: True
    show ?thesis
    proof (cases "deck prev = []")
      case True
      with noPlay \<open>status prev = Playing \<and> currentTurn prev = AI\<close> pl(1)
      have "aiTurn prev = Inr (prev\<lparr>currentTurn := Player,
          lastAction := ''AI deck empty! Turn skipped.''\<rparr>)"
        by (simp add: aiTurn_def)
      with pack top show ?thesis by (simp add: allCards_def)
    next
      case False
      then have dk: "butlast (deck prev) @ [last (deck prev)] = deck prev" by simp
      let ?st = "prev\<lparr>deck := butlast (deck prev),
          aiHand := aiHand prev @ [(last (deck prev))\<lparr>isFaceUp := False\<rparr>],
          currentTurn := Player, lastAction := ''AI drew a card.''\<rparr>"
      from False noPlay \<open>status prev = Playing \<and> currentTurn prev = AI\<close> pl(1)
      have run: "aiTurn prev = Inr ?st"
        by (simp add: aiTurn_def Let_def)
      have B: "allCards prev = (butlast (deck prev) @ [last (deck prev)]) @ playerHand prev
          @ aiHand prev @ discardPile prev"
        by (simp only: dk allCards_def)
      have A: "allCards ?st = butlast (deck prev) @ playerHand prev
          @ (aiHand prev @ [(last (deck prev))\<lparr>isFaceUp := False\<rparr>]) @ discardPile prev"
        by (simp add: allCards_def)
      have "fullPack (allCards ?st) = fullPack (allCards prev)"
        unfolding A B by (intro fullPack_faceless_cong) simp
      with pack top run show ?thesis by simp
    qed
  qed
qed

lemma seedLoop_result_fst:
  assumes "seedLoop c dk = Some y"
  shows "rank (fst y) \<noteq> EIGHT"
proof (rule seedLoop.raw_induct [where P = "\<lambda>_ _ y. rank (fst y) \<noteq> EIGHT", OF _ assms])
  fix f :: "Card \<Rightarrow> Card list \<Rightarrow> (Card \<times> Card list) option" and firstDiscard fullDeck r
  assume ih: "\<And>c dk y. f c dk = Some y \<Longrightarrow> rank (fst y) \<noteq> EIGHT"
    and step: "(if rank firstDiscard = EIGHT
        then f (last (firstDiscard # fullDeck)) (butlast (firstDiscard # fullDeck))
        else Some (firstDiscard, fullDeck)) = Some r"
  show "rank (fst r) \<noteq> EIGHT"
  proof (cases "rank firstDiscard = EIGHT")
    case True
    with step have "f (last (firstDiscard # fullDeck)) (butlast (firstDiscard # fullDeck))
        = Some r" by (simp only: if_True simp_thms)
    then show ?thesis by (rule ih)
  next
    case False
    with step show ?thesis by auto
  qed
qed

lemma seedLoop_result: "seedLoop c dk = Some (c', dk') \<Longrightarrow> rank c' \<noteq> EIGHT"
  using seedLoop_result_fst by fastforce

lemma initGame_result:
  assumes "initGame d = Some (Inr st)"
  shows "\<exists>c. discardPile st = [c] \<and> rank c \<noteq> EIGHT \<and> isFaceUp c"
proof -
  from assms obtain c' dk' where
    "seedLoop (last (drop 8 (drop 8 d))) (butlast (drop 8 (drop 8 d))) = Some (c', dk')"
    "discardPile st = [c'\<lparr>isFaceUp := True\<rparr>]"
    by (auto simp: initGame_def Let_def split: if_splits option.splits)
  with seedLoop_result show ?thesis by fastforce
qed

lemma count_list_map_filter:
  "count_list (map f xs) y = length (filter (\<lambda>x. f x = y) xs)"
  by (induction xs) auto

lemma fullPack_meaning:
  assumes "fullPack cs"
  shows "length cs = 52" and "length (filter (\<lambda>c. suit c = s \<and> rank c = r) cs) = 1"
proof -
  from assms have c1: "\<forall>p \<in> set allPairs. count_list (map cardKey cs) p = 1"
    by (simp add: fullPack_def)
  from count_one_distinct(3) [OF c1] show "length cs = 52" by simp
  have "(s, r) \<in> set allPairs" by (simp add: allPairs_UNIV)
  with c1 have "count_list (map cardKey cs) (s, r) = 1" by blast
  then show "length (filter (\<lambda>c. suit c = s \<and> rank c = r) cs) = 1"
    by (simp add: count_list_map_filter cardKey_def)
qed

lemma created_fullPack: "isCreatedDeck d \<Longrightarrow> fullPack d"
  by (simp add: isCreatedDeck_def fullPack_def)

lemma playCard_no_top:
  "discardPile prev = [] \<Longrightarrow> playCard prev cardId = Inr st' \<Longrightarrow> st' = prev"
  by (auto simp: playCard_def topCard_def split: if_splits option.splits)

lemma aiTurn_no_top:
  assumes "discardPile prev = []" and "aiTurn prev = Inr st'"
    and "status prev = Playing \<and> currentTurn prev = AI"
  shows "playableCards (aiHand prev) (topCard prev) (wildSuit prev) = Inr []"
  using assms playableCards_cases [of "aiHand prev" "topCard prev" "wildSuit prev"]
  by (auto simp: aiTurn_def topCard_def)


lemma aiTurn_pack_any:
  assumes pack: "fullPack (allCards prev)" and run: "aiTurn prev = Inr st'"
  shows "fullPack (allCards st')"
proof (cases "discardPile prev = []")
  case False
  from aiTurn_pack [OF pack False] run show ?thesis by auto
next
  case True
  show ?thesis
  proof (cases "status prev = Playing \<and> currentTurn prev = AI")
    case False
    with run pack show ?thesis by (auto simp: aiTurn_def)
  next
    case turn: True
    from aiTurn_no_top [OF True run turn]
    have pl: "playableCards (aiHand prev) (topCard prev) (wildSuit prev) = Inr []" .
    show ?thesis
    proof (cases "deck prev = []")
      case True
      with pl turn run have "st' = prev\<lparr>currentTurn := Player,
          lastAction := ''AI deck empty! Turn skipped.''\<rparr>"
        by (simp add: aiTurn_def)
      with pack show ?thesis by (simp add: allCards_def)
    next
      case False
      then have dk: "butlast (deck prev) @ [last (deck prev)] = deck prev" by simp
      let ?st = "prev\<lparr>deck := butlast (deck prev),
          aiHand := aiHand prev @ [(last (deck prev))\<lparr>isFaceUp := False\<rparr>],
          currentTurn := Player, lastAction := ''AI drew a card.''\<rparr>"
      from False pl turn run have st': "st' = ?st"
        by (simp add: aiTurn_def Let_def)
      have B: "allCards prev = (butlast (deck prev) @ [last (deck prev)]) @ playerHand prev
          @ aiHand prev @ discardPile prev"
        by (simp only: dk allCards_def)
      have A: "allCards ?st = butlast (deck prev) @ playerHand prev
          @ (aiHand prev @ [(last (deck prev))\<lparr>isFaceUp := False\<rparr>]) @ discardPile prev"
        by (simp add: allCards_def)
      have "fullPack (allCards ?st) = fullPack (allCards prev)"
        unfolding A B by (intro fullPack_faceless_cong) simp
      with pack st' show ?thesis by simp
    qed
  qed
qed

lemma playCard_pack_any:
  assumes "fullPack (allCards prev)" and "playCard prev cardId = Inr st'"
  shows "fullPack (allCards st')"
proof (cases "discardPile prev = []")
  case True
  with assms playCard_no_top show ?thesis by blast
next
  case False
  from playCard_pack [OF assms(1) False, of cardId] assms(2) show ?thesis by auto
qed

subsection \<open>Reachable states\<close>

lemma applyWin_over:
  "playerHand st = [] \<or> aiHand st = [] \<Longrightarrow> status (applyWin st) = Won \<or> status (applyWin st) = Lost"
  by (auto simp: applyWin_def checkWin_def)

lemma opponentInPlay_initial: "opponentInPlay initialState"
  by (simp add: opponentInPlay_def initialState_def)

lemma opponentInPlay_deal:
  assumes "initGame created = Some (Inr st)"
  shows "opponentInPlay st"
proof -
  from assms have full: "drop 8 (drop 8 created) \<noteq> []"
    and hand: "aiHand st = map (\<lambda>c. c\<lparr>isFaceUp := False\<rparr>) (take 8 (drop 8 created))"
    by (auto simp: initGame_def Let_def split: if_splits option.splits)
  from full have "drop 8 created \<noteq> []" by auto
  with hand have "aiHand st \<noteq> []" by simp
  then show ?thesis by (simp add: opponentInPlay_def)
qed

lemma opponentInPlay_draw: "opponentInPlay st \<Longrightarrow> opponentInPlay (handleDraw st)"
  by (auto simp: opponentInPlay_def handleDraw_def Let_def)

lemma opponentInPlay_select: "opponentInPlay st \<Longrightarrow> opponentInPlay (handleSuitSelect st s)"
  by (auto simp: opponentInPlay_def handleSuitSelect_def applyWin_def checkWin_def)

lemma opponentInPlay_hint: "opponentInPlay st \<Longrightarrow> opponentInPlay (st\<lparr>hint := h\<rparr>)"
  by (simp add: opponentInPlay_def)

lemma opponentInPlay_play:
  assumes "opponentInPlay st" and "playCard st cardId = Inr st'"
  shows "opponentInPlay st'"
proof (cases "aiHand st = []")
  case True
  with assms(1) have "status st \<noteq> Playing \<or> playerHand st = []"
    by (auto simp: opponentInPlay_def)
  then have "playCard st cardId = Inr st"
  proof
    assume "status st \<noteq> Playing"
    then show ?thesis by (simp add: playCard_def)
  next
    assume "playerHand st = []"
    then show ?thesis by (simp add: playCard_def)
  qed
  with assms(2) have "st' = st" by simp
  with assms(1) show ?thesis by simp
next
  case False
  from assms(2) have "aiHand st' = aiHand st"
    by (auto simp: playCard_def Let_def applyWin_cards split: if_splits option.splits)
  with False show ?thesis by (simp add: opponentInPlay_def)
qed

lemma opponentInPlay_opponent:
  assumes inv: "opponentInPlay st" and run: "aiTurn st = Inr st'"
  shows "opponentInPlay st'"
proof (cases "status st = Playing \<and> currentTurn st = AI")
  case False
  with run have "st' = st" by (auto simp: aiTurn_def)
  with inv show ?thesis by simp
next
  case True
  with run obtain playable where
    pl: "playableCards (aiHand st) (topCard st) (wildSuit st) = Inr playable"
    by (cases "playableCards (aiHand st) (topCard st) (wildSuit st)") (auto simp: aiTurn_def)
  show ?thesis
  proof (cases "playable = []")
    case False
    define played where "played = cardToPlay playable"
    define newHand where "newHand = filter (\<lambda>c. card_id c \<noteq> card_id played) (aiHand st)"
    define w where "w = (if rank played = EIGHT then Some (bestSuit newHand) else None)"
    define t where "t = (if rank played = EIGHT
        then ''AI played an 8 and set suit to '' @ suitStr (bestSuit newHand) @ ''.''
        else ''AI played '' @ rankStr (rank played) @ '' of '' @ suitStr (suit played) @ ''.'')"
    define new where "new = st\<lparr>aiHand := newHand,
        discardPile := discardPile st @ [played\<lparr>isFaceUp := True\<rparr>],
        wildSuit := w, currentTurn := Player, lastAction := t\<rparr>"
    from True False pl have "aiTurn st = Inr (applyWin new)"
      by (simp add: aiTurn_def Let_def new_def w_def t_def newHand_def played_def)
    with run have st': "st' = applyWin new" by simp
    show ?thesis
    proof (cases "newHand = []")
      case True
      then have "aiHand new = []" by (simp add: new_def)
      then have "status (applyWin new) = Won \<or> status (applyWin new) = Lost"
        using applyWin_over by blast
      then show ?thesis unfolding st' by (auto simp: opponentInPlay_def)
    next
      case False
      then have "aiHand (applyWin new) \<noteq> []" by (simp add: applyWin_cards new_def)
      then show ?thesis unfolding st' by (simp add: opponentInPlay_def)
    qed
  next
    case noPlay: True
    show ?thesis
    proof (cases "deck st = []")
      case True
      with noPlay \<open>status st = Playing \<and> currentTurn st = AI\<close> pl run
      have "st' = st\<lparr>currentTurn := Player, lastAction := ''AI deck empty! Turn skipped.''\<rparr>"
        by (simp add: aiTurn_def)
      with inv show ?thesis by (simp add: opponentInPlay_def)
    next
      case False
      with noPlay \<open>status st = Playing \<and> currentTurn st = AI\<close> pl run
      have "aiHand st' \<noteq> []"
        by (auto simp: aiTurn_def Let_def)
      then show ?thesis by (simp add: opponentInPlay_def)
    qed
  qed
qed

lemma reachable_opponentInPlay: "reachable st \<Longrightarrow> opponentInPlay st"
proof (induction rule: reachable.induct)
  case start
  show ?case by (rule opponentInPlay_initial)
next
  case (deal created st)
  then show ?case by (rule opponentInPlay_deal)
next
  case (draw st)
  then show ?case by (simp add: opponentInPlay_draw)
next
  case (play st cardId st')
  then show ?case using opponentInPlay_play by blast
next
  case (select st s)
  then show ?case by (simp add: opponentInPlay_select)
next
  case (opponent st st')
  then show ?case using opponentInPlay_opponent by blast
next
  case (hinted st h)
  then show ?case by (simp add: opponentInPlay_hint)
qed

subsection \<open>The first discard\<close>

lemma seedLoop_exact:
  "rank c \<noteq> EIGHT \<Longrightarrow> \<forall>e \<in> set es. rank e = EIGHT
   \<Longrightarrow> seedLoop (last (pre @ c # es)) (butlast (pre @ c # es)) = Some (c, es @ pre)"
proof (induction es arbitrary: pre rule: rev_induct)
  case Nil
  then show ?case by (subst seedLoop.simps) (simp add: butlast_append)
next
  case (snoc e es)
  from snoc.prems have e: "rank e = EIGHT" and es: "\<forall>x \<in> set es. rank x = EIGHT" by simp_all
  have l: "last (pre @ c # es @ [e]) = e" by simp
  have b: "butlast (pre @ c # es @ [e]) = pre @ c # es"
    using butlast_snoc [of "pre @ c # es" e] by simp
  have "seedLoop e (pre @ c # es)
      = seedLoop (last ((e # pre) @ c # es)) (butlast ((e # pre) @ c # es))"
    using e by (subst seedLoop.simps) (simp only: if_True simp_thms append_Cons)
  also have "\<dots> = Some (c, es @ e # pre)"
    by (rule snoc.IH [OF snoc.prems(1) es])
  finally show ?case by (simp only: l b) simp
qed

lemma set_last_butlast: "xs \<noteq> [] \<Longrightarrow> set (last xs # butlast xs) = set xs"
proof -
  assume "xs \<noteq> []"
  then have "set xs = set (butlast xs @ [last xs])" by (simp del: set_append)
  also have "\<dots> = set (last xs # butlast xs)" by simp
  finally show ?thesis by simp
qed

lemma seedLoop_from_deck:
  assumes "seedLoop c dk = Some y"
  shows "fst y \<in> set (c # dk)"
proof (rule seedLoop.raw_induct [where P = "\<lambda>c dk y. fst y \<in> set (c # dk)", OF _ assms])
  fix f :: "Card \<Rightarrow> Card list \<Rightarrow> (Card \<times> Card list) option" and firstDiscard fullDeck r
  assume ih: "\<And>c dk y. f c dk = Some y \<Longrightarrow> fst y \<in> set (c # dk)"
    and step: "(if rank firstDiscard = EIGHT
        then f (last (firstDiscard # fullDeck)) (butlast (firstDiscard # fullDeck))
        else Some (firstDiscard, fullDeck)) = Some r"
  show "fst r \<in> set (firstDiscard # fullDeck)"
  proof (cases "rank firstDiscard = EIGHT")
    case True
    with step have "f (last (firstDiscard # fullDeck)) (butlast (firstDiscard # fullDeck))
        = Some r" by (simp only: if_True simp_thms)
    then have "fst r \<in> set (last (firstDiscard # fullDeck) # butlast (firstDiscard # fullDeck))"
      by (rule ih)
    also have "\<dots> = set (firstDiscard # fullDeck)"
      by (rule set_last_butlast) simp
    finally show ?thesis .
  next
    case False
    with step show ?thesis by auto
  qed
qed

lemma initGame_exact:
  assumes "drop 16 d = pre @ c # eights" and "rank c \<noteq> EIGHT"
    and "\<forall>e \<in> set eights. rank e = EIGHT"
  shows "initGame d = Some (Inr
     \<lparr>deck = eights @ pre,
      playerHand = map (\<lambda>x. x\<lparr>isFaceUp := True\<rparr>) (take 8 d),
      aiHand = map (\<lambda>x. x\<lparr>isFaceUp := False\<rparr>) (take 8 (drop 8 d)),
      discardPile = [c\<lparr>isFaceUp := True\<rparr>],
      currentTurn = Player, status = Playing, wildSuit = None,
      lastAction = ''Game started! Your turn.'',
      hint = Some ''Match the suit or rank of the top card.''\<rparr>)"
proof -
  have dd: "drop 8 (drop 8 d) = pre @ c # eights" using assms(1) by simp
  from seedLoop_exact [OF assms(2) assms(3), of pre]
  have "seedLoop (last (drop 8 (drop 8 d))) (butlast (drop 8 (drop 8 d))) = Some (c, eights @ pre)"
    by (simp only: dd)
  moreover have "drop 8 (drop 8 d) \<noteq> []" by (simp only: dd) simp
  ultimately show ?thesis by (simp add: initGame_def Let_def)
qed

lemma initGame_non_eight:
  assumes "initGame d = Some (Inr st)"
  shows "\<exists>x \<in> set (drop 16 d). rank x \<noteq> EIGHT"
proof -
  define full where "full = drop 8 (drop 8 d)"
  have unf: "initGame d =
      (if full = [] then Some (Inl UndefinedCard)
       else case seedLoop (last full) (butlast full) of
         None \<Rightarrow> None
       | Some (firstDiscard, remaining) \<Rightarrow>
           Some (Inr \<lparr>deck = remaining,
                      playerHand = map (\<lambda>c. c\<lparr>isFaceUp := True\<rparr>) (take 8 d),
                      aiHand = map (\<lambda>c. c\<lparr>isFaceUp := False\<rparr>) (take 8 (drop 8 d)),
                      discardPile = [firstDiscard\<lparr>isFaceUp := True\<rparr>],
                      currentTurn = Player, status = Playing, wildSuit = None,
                      lastAction = ''Game started! Your turn.'',
                      hint = Some ''Match the suit or rank of the top card.''\<rparr>))"
    by (simp only: initGame_def Let_def full_def)
  from assms unf have ne: "full \<noteq> []" by (auto split: if_splits)
  with assms unf obtain y where y: "seedLoop (last full) (butlast full) = Some y"
    by (cases "seedLoop (last full) (butlast full)") auto
  from seedLoop_from_deck [OF y] set_last_butlast [OF ne] have "fst y \<in> set full"
    by blast
  moreover from seedLoop_result_fst [OF y] have "rank (fst y) \<noteq> EIGHT" .
  moreover have "full = drop 16 d" by (simp add: full_def)
  ultimately show ?thesis by blast
qed

section \<open>Properties\<close>

text \<open>C1: for every card, top card and wild suit (possibly null), \<open>isPlayable\<close> is true
  if and only if the card's rank is EIGHT, or the wild suit is set and is the card's suit,
  or no wild suit is set and the card matches the top card in suit or in rank. In
  particular every card of rank EIGHT is playable, whatever the top card and wild suit.\<close>

theorem isPlayable_iff:
  "(isPlayable c tc w \<longleftrightarrow>
      (rank c = EIGHT
       \<or> (case w of Some s \<Rightarrow> suit c = s
                   | None \<Rightarrow> suit c = suit tc \<or> rank c = rank tc)))
   \<and> (rank c = EIGHT \<longrightarrow> isPlayable c tc w)"
  by (cases w) (auto simp: isPlayable_def)

theorem isPlayable_iff_witness:
  "rank (mkCard SPADES EIGHT True) = EIGHT
   \<and> isPlayable (mkCard SPADES EIGHT True) (mkCard HEARTS FIVE True) (Some DIAMONDS)
   \<and> \<not> isPlayable (mkCard SPADES SEVEN True) (mkCard SPADES FIVE True) (Some DIAMONDS)
   \<and> isPlayable (mkCard SPADES SEVEN True) (mkCard SPADES FIVE True) None"
  using isPlayable_iff [of "mkCard SPADES EIGHT True" "mkCard HEARTS FIVE True" "Some DIAMONDS"]
    isPlayable_iff [of "mkCard SPADES SEVEN True" "mkCard SPADES FIVE True" "Some DIAMONDS"]
    isPlayable_iff [of "mkCard SPADES SEVEN True" "mkCard SPADES FIVE True" None]
  by (simp add: mkCard_def)

text \<open>C7: \<open>checkWin\<close> returns won whenever the player's hand is empty, also when the
  opponent's hand is empty at the same time; it returns lost when the opponent's hand is
  empty and the player's is not; otherwise it returns null.\<close>

theorem checkWin_cases:
  "(playerHand state = [] \<longrightarrow> checkWin state = Some Won)
   \<and> (playerHand state \<noteq> [] \<and> aiHand state = [] \<longrightarrow> checkWin state = Some Lost)
   \<and> (playerHand state \<noteq> [] \<and> aiHand state \<noteq> [] \<longrightarrow> checkWin state = None)"
  by (simp add: checkWin_def)

theorem checkWin_cases_witness:
  "playerHand (mkState [] [] [] [mkCard HEARTS FIVE True] AI Playing None) = []
   \<and> aiHand (mkState [] [] [] [mkCard HEARTS FIVE True] AI Playing None) = []
   \<and> checkWin (mkState [] [] [] [mkCard HEARTS FIVE True] AI Playing None) = Some Won
   \<and> checkWin (mkState [] [mkCard CLUBS TWO True] [] [mkCard HEARTS FIVE True] AI Playing None)
       = Some Lost
   \<and> checkWin (mkState [] [mkCard CLUBS TWO True] [mkCard CLUBS SIX False]
                 [mkCard HEARTS FIVE True] AI Playing None) = None"
  using checkWin_cases [of "mkState [] [] [] [mkCard HEARTS FIVE True] AI Playing None"]
    checkWin_cases [of "mkState [] [mkCard CLUBS TWO True] [] [mkCard HEARTS FIVE True]
                          AI Playing None"]
    checkWin_cases [of "mkState [] [mkCard CLUBS TWO True] [mkCard CLUBS SIX False]
                          [mkCard HEARTS FIVE True] AI Playing None"]
  by (simp add: mkState_def)

text \<open>C8: in a state with status playing, the player to move and an empty deck,
  \<open>handleDraw\<close> adds no card to the player's hand and leaves the deck, both hands, the
  discard pile, the wild suit and the status as they were, but passes the turn to the
  opponent; only the action log and the turn differ from the input state.\<close>

theorem handleDraw_empty_deck:
  assumes "status prev = Playing" and "currentTurn prev = Player" and "deck prev = []"
  shows "deck (handleDraw prev) = deck prev
    \<and> playerHand (handleDraw prev) = playerHand prev
    \<and> aiHand (handleDraw prev) = aiHand prev
    \<and> discardPile (handleDraw prev) = discardPile prev
    \<and> wildSuit (handleDraw prev) = wildSuit prev
    \<and> status (handleDraw prev) = status prev
    \<and> currentTurn (handleDraw prev) = AI
    \<and> handleDraw prev = prev\<lparr>lastAction := ''Deck empty! Turn skipped.'', currentTurn := AI\<rparr>"
  using assms by (simp add: handleDraw_def)

theorem handleDraw_empty_deck_witness:
  "status (mkState [] [mkCard CLUBS TWO True] [mkCard CLUBS SIX False]
             [mkCard HEARTS FIVE True] Player Playing None) = Playing
   \<and> currentTurn (mkState [] [mkCard CLUBS TWO True] [mkCard CLUBS SIX False]
             [mkCard HEARTS FIVE True] Player Playing None) = Player
   \<and> deck (mkState [] [mkCard CLUBS TWO True] [mkCard CLUBS SIX False]
             [mkCard HEARTS FIVE True] Player Playing None) = []
   \<and> playerHand (handleDraw (mkState [] [mkCard CLUBS TWO True] [mkCard CLUBS SIX False]
             [mkCard HEARTS FIVE True] Player Playing None)) = [mkCard CLUBS TWO True]
   \<and> currentTurn (handleDraw (mkState [] [mkCard CLUBS TWO True] [mkCard CLUBS SIX False]
             [mkCard HEARTS FIVE True] Player Playing None)) = AI"
  using handleDraw_empty_deck [of "mkState [] [mkCard CLUBS TWO True] [mkCard CLUBS SIX False]
             [mkCard HEARTS FIVE True] Player Playing None"]
  by (simp add: mkState_def)

text \<open>C4: in a state with status playing and the player to move, playing a card of rank
  EIGHT that is in the player's hand and playable gives a state whose status is
  suit selection, whose turn is still the player's and whose wild suit is what it was.\<close>

theorem playCard_eight:
  assumes "status prev = Playing" and "currentTurn prev = Player"
    and "find (\<lambda>c. card_id c = cardId) (playerHand prev) = Some crd"
    and "rank crd = EIGHT"
    and "topCard prev = Some tc" and "isPlayable crd tc (wildSuit prev)"
  shows "\<exists>st'. playCard prev cardId = Inr st'
    \<and> status st' = SuitSelection
    \<and> currentTurn st' = Player
    \<and> wildSuit st' = wildSuit prev"
  using assms by (simp add: playCard_def)

theorem playCard_eight_witness:
  "status eightState = Playing \<and> currentTurn eightState = Player
   \<and> find (\<lambda>c. card_id c = ''8-spades'') (playerHand eightState)
       = Some (mkCard SPADES EIGHT True)
   \<and> rank (mkCard SPADES EIGHT True) = EIGHT
   \<and> topCard eightState = Some (mkCard HEARTS FIVE True)
   \<and> isPlayable (mkCard SPADES EIGHT True) (mkCard HEARTS FIVE True) (wildSuit eightState)
   \<and> (\<exists>st'. playCard eightState ''8-spades'' = Inr st'
         \<and> status st' = SuitSelection \<and> currentTurn st' = Player
         \<and> wildSuit st' = Some DIAMONDS)"
proof -
  have h: "status eightState = Playing" "currentTurn eightState = Player"
    "find (\<lambda>c. card_id c = ''8-spades'') (playerHand eightState)
       = Some (mkCard SPADES EIGHT True)"
    "rank (mkCard SPADES EIGHT True) = EIGHT"
    "topCard eightState = Some (mkCard HEARTS FIVE True)"
    "isPlayable (mkCard SPADES EIGHT True) (mkCard HEARTS FIVE True) (wildSuit eightState)"
    by (simp_all add: eightState_def mkState_def mkCard_def topCard_def isPlayable_def)
  have w: "wildSuit eightState = Some DIAMONDS"
    by (simp add: eightState_def mkState_def)
  from playCard_eight [OF h] w h show ?thesis by simp
qed

text \<open>C6: in a state with status playing and the player to move, playing a playable card
  of another rank than EIGHT that is in the player's hand gives a state with no wild suit
  and the opponent to move; the card is gone from the player's hand (every card with the
  given id is filtered out, which is exactly that card when the ids of the hand are
  distinct) and its face-up copy is the new last element, the top, of the discard pile.\<close>

theorem playCard_non_eight:
  assumes "status prev = Playing" and "currentTurn prev = Player"
    and "find (\<lambda>c. card_id c = cardId) (playerHand prev) = Some crd"
    and "rank crd \<noteq> EIGHT"
    and "topCard prev = Some tc" and "isPlayable crd tc (wildSuit prev)"
  shows "\<exists>st'. playCard prev cardId = Inr st'
    \<and> wildSuit st' = None
    \<and> currentTurn st' = AI
    \<and> playerHand st' = filter (\<lambda>c. card_id c \<noteq> cardId) (playerHand prev)
    \<and> crd \<notin> set (playerHand st')
    \<and> (distinct (map card_id (playerHand prev))
         \<longrightarrow> playerHand st' = remove1 crd (playerHand prev))
    \<and> discardPile st' = discardPile prev @ [crd\<lparr>isFaceUp := True\<rparr>]
    \<and> topCard st' = Some (crd\<lparr>isFaceUp := True\<rparr>)"
proof -
  define new where
    "new = prev\<lparr>playerHand := filter (\<lambda>c. card_id c \<noteq> cardId) (playerHand prev),
                  discardPile := discardPile prev @ [crd\<lparr>isFaceUp := True\<rparr>],
                  wildSuit := None,
                  currentTurn := AI,
                  lastAction := ''You played '' @ rankStr (rank crd)
                                @ '' of '' @ suitStr (suit crd) @ ''.''\<rparr>"
  have run: "playCard prev cardId = Inr (applyWin new)"
    using assms by (simp add: playCard_def Let_def new_def)
  have keep: "wildSuit (applyWin new) = None" "currentTurn (applyWin new) = AI"
    "playerHand (applyWin new) = filter (\<lambda>c. card_id c \<noteq> cardId) (playerHand prev)"
    "discardPile (applyWin new) = discardPile prev @ [crd\<lparr>isFaceUp := True\<rparr>]"
    by (simp_all add: applyWin_def new_def split: option.splits)
  from assms(3) have "card_id crd = cardId"
    using find_Some_props by fastforce
  then have gone: "crd \<notin> set (playerHand (applyWin new))"
    by (simp add: keep)
  have rem: "distinct (map card_id (playerHand prev))
      \<longrightarrow> playerHand (applyWin new) = remove1 crd (playerHand prev)"
    using find_filter_remove1 [of card_id "playerHand prev" cardId crd] assms(3)
    by (simp add: keep)
  have top': "topCard (applyWin new) = Some (crd\<lparr>isFaceUp := True\<rparr>)"
    by (simp add: topCard_def keep)
  from run keep gone rem top' show ?thesis by simp
qed

theorem playCard_non_eight_witness:
  "status sevenState = Playing \<and> currentTurn sevenState = Player
   \<and> find (\<lambda>c. card_id c = ''7-hearts'') (playerHand sevenState)
       = Some (mkCard HEARTS SEVEN True)
   \<and> rank (mkCard HEARTS SEVEN True) \<noteq> EIGHT
   \<and> topCard sevenState = Some (mkCard SPADES SEVEN True)
   \<and> isPlayable (mkCard HEARTS SEVEN True) (mkCard SPADES SEVEN True) (wildSuit sevenState)
   \<and> distinct (map card_id (playerHand sevenState))
   \<and> (\<exists>st'. playCard sevenState ''7-hearts'' = Inr st'
         \<and> wildSuit st' = None \<and> currentTurn st' = AI \<and> playerHand st' = []
         \<and> playerHand st' = remove1 (mkCard HEARTS SEVEN True) (playerHand sevenState)
         \<and> discardPile st' = [mkCard SPADES SEVEN True, mkCard HEARTS SEVEN True])"
proof -
  have h: "status sevenState = Playing" "currentTurn sevenState = Player"
    "find (\<lambda>c. card_id c = ''7-hearts'') (playerHand sevenState)
       = Some (mkCard HEARTS SEVEN True)"
    "rank (mkCard HEARTS SEVEN True) \<noteq> EIGHT"
    "topCard sevenState = Some (mkCard SPADES SEVEN True)"
    "isPlayable (mkCard HEARTS SEVEN True) (mkCard SPADES SEVEN True) (wildSuit sevenState)"
    by (simp_all add: sevenState_def mkState_def mkCard_def topCard_def isPlayable_def)
  have v: "playerHand sevenState = [mkCard HEARTS SEVEN True]"
    "discardPile sevenState = [mkCard SPADES SEVEN True]"
    "card_id (mkCard HEARTS SEVEN True) = ''7-hearts''"
    "(mkCard HEARTS SEVEN True)\<lparr>isFaceUp := True\<rparr> = mkCard HEARTS SEVEN True"
    "distinct (map card_id (playerHand sevenState))"
    by (simp_all add: sevenState_def mkState_def mkCard_def)
  from playCard_non_eight [OF h] obtain st' where
    "playCard sevenState ''7-hearts'' = Inr st'" "wildSuit st' = None" "currentTurn st' = AI"
    "playerHand st' = filter (\<lambda>c. card_id c \<noteq> ''7-hearts'') (playerHand sevenState)"
    "distinct (map card_id (playerHand sevenState))
       \<longrightarrow> playerHand st' = remove1 (mkCard HEARTS SEVEN True) (playerHand sevenState)"
    "discardPile st' = discardPile sevenState @ [(mkCard HEARTS SEVEN True)\<lparr>isFaceUp := True\<rparr>]"
    by blast
  with v h show ?thesis by simp
qed

text \<open>C3: for a state whose status is not suit selection, \<open>handleSuitSelect\<close> is to
  return the state unchanged. The code does not: \<open>handleSuitSelect\<close> has no test of the
  status, where \<open>handleDraw\<close>, \<open>playCard\<close> and the opponent's turn each test it. In the
  game dealt from \<open>exampleDeck\<close> the player plays the 8 of hearts and selects hearts; the
  status is then playing and the turn the opponent's. A further call with spades in that
  state sets the wild suit to spades and rewrites the action log.\<close>

theorem handleSuitSelect_second_selection:
  "initGame exampleDeck = Some (Inr exampleStart)
   \<and> playCard exampleStart ''8-hearts'' = Inr exampleSelecting
   \<and> status exampleSelecting = SuitSelection
   \<and> handleSuitSelect exampleSelecting HEARTS = exampleSelected
   \<and> status exampleSelected = Playing
   \<and> status exampleSelected \<noteq> SuitSelection
   \<and> wildSuit exampleSelected = Some HEARTS
   \<and> wildSuit (handleSuitSelect exampleSelected SPADES) = Some SPADES
   \<and> lastAction (handleSuitSelect exampleSelected SPADES) = ''You set the suit to spades.''
   \<and> handleSuitSelect exampleSelected SPADES \<noteq> exampleSelected"
proof -
  have run: "initGame exampleDeck = Some (Inr exampleStart)"
    by (simp add: initGame_def exampleDeck_def exampleStart_def eightFirst_def eightLast_def
        RANKS_def mkCard_def mkState_def seedLoop.simps)
  have step: "playCard exampleStart ''8-hearts'' = Inr exampleSelecting"
    by (simp add: playCard_def exampleStart_def exampleSelecting_def mkState_def mkCard_def
        topCard_def isPlayable_def RANKS_def)
  have sel: "handleSuitSelect exampleSelecting HEARTS = exampleSelected"
    by (simp add: handleSuitSelect_def applyWin_def checkWin_def exampleSelecting_def
        exampleSelected_def exampleStart_def mkState_def)
  have v: "status exampleSelecting = SuitSelection" "status exampleSelected = Playing"
    "wildSuit exampleSelected = Some HEARTS"
    by (simp_all add: exampleSelecting_def exampleSelected_def mkState_def)
  have again: "wildSuit (handleSuitSelect exampleSelected SPADES) = Some SPADES"
    "lastAction (handleSuitSelect exampleSelected SPADES) = ''You set the suit to spades.''"
    by (simp_all add: handleSuitSelect_def applyWin_def split: option.splits)
  from again(1) v(3) have "handleSuitSelect exampleSelected SPADES \<noteq> exampleSelected"
    by auto
  with run step sel v again show ?thesis by simp
qed


theorem handleSuitSelect_second_selection_witness:
  "playCard exampleStart ''8-hearts'' = Inr exampleSelecting
   \<and> handleSuitSelect exampleSelecting HEARTS = exampleSelected
   \<and> status exampleSelected = Playing
   \<and> wildSuit (handleSuitSelect exampleSelected SPADES) = Some SPADES
   \<and> handleSuitSelect exampleSelected SPADES \<noteq> exampleSelected"
  using handleSuitSelect_second_selection by blast

text \<open>C5: in a state with status suit selection, \<open>handleSuitSelect\<close> with suit \<open>s\<close>
  gives a state with wild suit \<open>s\<close> and the opponent to move; its status is won when the
  player's hand is empty, and playing otherwise. The last part holds in every state the
  component can be in: there the opponent still holds a card while a suit is selected.\<close>

theorem handleSuitSelect_in_selection:
  "status prev = SuitSelection \<longrightarrow>
     wildSuit (handleSuitSelect prev s) = Some s
     \<and> currentTurn (handleSuitSelect prev s) = AI
     \<and> (playerHand prev = [] \<longrightarrow> status (handleSuitSelect prev s) = Won)
     \<and> (reachable prev \<and> playerHand prev \<noteq> [] \<longrightarrow> status (handleSuitSelect prev s) = Playing)"
proof (intro impI conjI)
  show "wildSuit (handleSuitSelect prev s) = Some s"
    by (simp add: handleSuitSelect_def applyWin_def split: option.splits)
  show "currentTurn (handleSuitSelect prev s) = AI"
    by (simp add: handleSuitSelect_def applyWin_def split: option.splits)
next
  assume "playerHand prev = []"
  then show "status (handleSuitSelect prev s) = Won"
    by (simp add: handleSuitSelect_def applyWin_def checkWin_def)
next
  assume sel: "status prev = SuitSelection" and r: "reachable prev \<and> playerHand prev \<noteq> []"
  from r have "opponentInPlay prev" by (simp add: reachable_opponentInPlay)
  with sel have "aiHand prev \<noteq> []" by (auto simp: opponentInPlay_def)
  with r show "status (handleSuitSelect prev s) = Playing"
    by (simp add: handleSuitSelect_def applyWin_def checkWin_def)
qed

theorem handleSuitSelect_in_selection_witness:
  "status exampleSelecting = SuitSelection
   \<and> reachable exampleSelecting \<and> playerHand exampleSelecting \<noteq> []
   \<and> wildSuit (handleSuitSelect exampleSelecting CLUBS) = Some CLUBS
   \<and> currentTurn (handleSuitSelect exampleSelecting CLUBS) = AI
   \<and> status (handleSuitSelect exampleSelecting CLUBS) = Playing
   \<and> status lastEightState = SuitSelection \<and> playerHand lastEightState = []
   \<and> status (handleSuitSelect lastEightState CLUBS) = Won"
proof -
  have run: "initGame exampleDeck = Some (Inr exampleStart)"
    by (simp add: initGame_def exampleDeck_def exampleStart_def eightFirst_def eightLast_def
        RANKS_def mkCard_def mkState_def seedLoop.simps)
  have step: "playCard exampleStart ''8-hearts'' = Inr exampleSelecting"
    by (simp add: playCard_def exampleStart_def exampleSelecting_def mkState_def mkCard_def
        topCard_def isPlayable_def RANKS_def)
  from reachable.deal [OF run] step have r: "reachable exampleSelecting"
    by (rule reachable.play)
  have h: "status exampleSelecting = SuitSelection" "playerHand exampleSelecting \<noteq> []"
    "status lastEightState = SuitSelection" "playerHand lastEightState = []"
    by (simp_all add: exampleSelecting_def lastEightState_def mkState_def)
  from handleSuitSelect_in_selection [of exampleSelecting CLUBS]
    handleSuitSelect_in_selection [of lastEightState CLUBS] r h
  show ?thesis by simp
qed

text \<open>C2, as the claim states it, fails: with the opponent holding 3 of clubs, 3 of
  diamonds and 8 of spades (the scenario of the spec), the 8 is played, clubs and diamonds
  are tied in the remaining hand, and the wild suit becomes clubs, the suit met first in
  the hand, where the enumeration order of the suits would give diamonds.\<close>

theorem aiTurn_tie_break_counterexample:
  "status tieState = Playing \<and> currentTurn tieState = AI
   \<and> playableCards (aiHand tieState) (topCard tieState) (wildSuit tieState)
       = Inr [mkCard SPADES EIGHT False]
   \<and> aiTurn tieState = Inr tieAfter
   \<and> aiHand tieAfter = [mkCard CLUBS THREE False, mkCard DIAMONDS THREE False]
   \<and> wildSuit tieAfter = Some CLUBS
   \<and> mostFrequentByEnumOrder (aiHand tieAfter) = DIAMONDS"
  by (simp add: tieState_def tieAfter_def mkState_def mkCard_def topCard_def isPlayable_def
      aiTurn_def cardToPlay_def bestSuit_def suitCounts_def applyWin_def checkWin_def
      mostFrequentByEnumOrder_def SUITS_def suitCount_def)

text \<open>C2, amended: whenever the opponent's turn plays a card of rank EIGHT, the wild suit
  that is set is SPADES when the hand left after removing the played card is empty;
  otherwise it is a suit of that hand with the largest number of cards, and among equally
  frequent suits the one whose first card comes first in the hand: every suit met in the
  hand before the first card of the chosen suit has strictly fewer cards.\<close>

theorem aiTurn_eight_wild_suit:
  assumes "status prev = Playing" and "currentTurn prev = AI"
    and "playableCards (aiHand prev) (topCard prev) (wildSuit prev) = Inr playable"
    and "playable \<noteq> []" and "rank (cardToPlay playable) = EIGHT"
  shows "\<exists>st'. aiTurn prev = Inr st'
    \<and> aiHand st' = filter (\<lambda>c. card_id c \<noteq> card_id (cardToPlay playable)) (aiHand prev)
    \<and> discardPile st' = discardPile prev @ [(cardToPlay playable)\<lparr>isFaceUp := True\<rparr>]
    \<and> (\<exists>b. wildSuit st' = Some b
          \<and> (aiHand st' = [] \<longrightarrow> b = SPADES)
          \<and> (aiHand st' \<noteq> [] \<longrightarrow>
                b \<in> suit ` set (aiHand st')
                \<and> (\<forall>s. suitCount s (aiHand st') \<le> suitCount b (aiHand st'))
                \<and> (\<forall>s \<in> set (takeWhile (\<lambda>x. x \<noteq> b) (map suit (aiHand st'))).
                      suitCount s (aiHand st') < suitCount b (aiHand st'))))"
proof -
  define played where "played = cardToPlay playable"
  define newHand where "newHand = filter (\<lambda>c. card_id c \<noteq> card_id played) (aiHand prev)"
  define newState where
    "newState = prev\<lparr>aiHand := newHand,
                     discardPile := discardPile prev @ [played\<lparr>isFaceUp := True\<rparr>],
                     wildSuit := Some (bestSuit newHand),
                     currentTurn := Player,
                     lastAction := ''AI played an 8 and set suit to ''
                                   @ suitStr (bestSuit newHand) @ ''.''\<rparr>"
  have run: "aiTurn prev = Inr (applyWin newState)"
    using assms by (simp add: aiTurn_def Let_def newState_def newHand_def played_def)
  have keep: "aiHand (applyWin newState) = newHand"
    "discardPile (applyWin newState) = discardPile prev @ [played\<lparr>isFaceUp := True\<rparr>]"
    "wildSuit (applyWin newState) = Some (bestSuit newHand)"
    by (simp_all add: applyWin_def newState_def split: option.splits)
  have choice: "(newHand = [] \<longrightarrow> bestSuit newHand = SPADES)
    \<and> (newHand \<noteq> [] \<longrightarrow>
          bestSuit newHand \<in> suit ` set newHand
          \<and> (\<forall>s. suitCount s newHand \<le> suitCount (bestSuit newHand) newHand)
          \<and> (\<forall>s \<in> set (takeWhile (\<lambda>x. x \<noteq> bestSuit newHand) (map suit newHand)).
                suitCount s newHand < suitCount (bestSuit newHand) newHand))"
    using bestSuit_empty bestSuit_first_most_frequent [of newHand] by blast
  show ?thesis
    unfolding run played_def [symmetric] newHand_def [symmetric]
    using keep choice by (intro exI [of _ "applyWin newState"]) (simp only: simp_thms, blast)
qed

theorem aiTurn_eight_wild_suit_witness:
  "status tieState = Playing \<and> currentTurn tieState = AI
   \<and> playableCards (aiHand tieState) (topCard tieState) (wildSuit tieState)
       = Inr [mkCard SPADES EIGHT False]
   \<and> [mkCard SPADES EIGHT False] \<noteq> []
   \<and> rank (cardToPlay [mkCard SPADES EIGHT False]) = EIGHT
   \<and> (\<exists>st'. aiTurn tieState = Inr st'
         \<and> aiHand st' = [mkCard CLUBS THREE False, mkCard DIAMONDS THREE False]
         \<and> aiHand st' \<noteq> []
         \<and> (\<exists>b. wildSuit st' = Some b \<and> b \<in> suit ` set (aiHand st')
               \<and> (\<forall>s. suitCount s (aiHand st') \<le> suitCount b (aiHand st'))
               \<and> (\<forall>s \<in> set (takeWhile (\<lambda>x. x \<noteq> b) (map suit (aiHand st'))).
                     suitCount s (aiHand st') < suitCount b (aiHand st'))))
   \<and> status loneEightState = Playing \<and> currentTurn loneEightState = AI
   \<and> playableCards (aiHand loneEightState) (topCard loneEightState) (wildSuit loneEightState)
       = Inr [mkCard SPADES EIGHT False]
   \<and> (\<exists>st'. aiTurn loneEightState = Inr st' \<and> aiHand st' = []
         \<and> wildSuit st' = Some SPADES)"
proof -
  have h: "status tieState = Playing" "currentTurn tieState = AI"
    "playableCards (aiHand tieState) (topCard tieState) (wildSuit tieState)
       = Inr [mkCard SPADES EIGHT False]"
    "[mkCard SPADES EIGHT False] \<noteq> []"
    "rank (cardToPlay [mkCard SPADES EIGHT False]) = EIGHT"
    by (simp_all add: tieState_def mkState_def mkCard_def topCard_def isPlayable_def
        cardToPlay_def)
  have v: "filter (\<lambda>c. card_id c \<noteq> card_id (cardToPlay [mkCard SPADES EIGHT False]))
             (aiHand tieState) = [mkCard CLUBS THREE False, mkCard DIAMONDS THREE False]"
    by (simp add: tieState_def mkState_def mkCard_def cardToPlay_def)
  from aiTurn_eight_wild_suit [OF h] obtain st' b where r:
    "aiTurn tieState = Inr st'"
    "aiHand st' = filter (\<lambda>c. card_id c \<noteq> card_id (cardToPlay [mkCard SPADES EIGHT False]))
                    (aiHand tieState)"
    "wildSuit st' = Some b"
    "aiHand st' \<noteq> [] \<longrightarrow> b \<in> suit ` set (aiHand st')
        \<and> (\<forall>s. suitCount s (aiHand st') \<le> suitCount b (aiHand st'))
        \<and> (\<forall>s \<in> set (takeWhile (\<lambda>x. x \<noteq> b) (map suit (aiHand st'))).
              suitCount s (aiHand st') < suitCount b (aiHand st'))"
    by blast
  from r(2) v have hand: "aiHand st' = [mkCard CLUBS THREE False, mkCard DIAMONDS THREE False]"
    by simp
  then have ne: "aiHand st' \<noteq> []" by simp
  from r(1) r(3) r(4) hand ne have first: "\<exists>st'. aiTurn tieState = Inr st'
      \<and> aiHand st' = [mkCard CLUBS THREE False, mkCard DIAMONDS THREE False]
      \<and> aiHand st' \<noteq> []
      \<and> (\<exists>b. wildSuit st' = Some b \<and> b \<in> suit ` set (aiHand st')
            \<and> (\<forall>s. suitCount s (aiHand st') \<le> suitCount b (aiHand st'))
            \<and> (\<forall>s \<in> set (takeWhile (\<lambda>x. x \<noteq> b) (map suit (aiHand st'))).
                  suitCount s (aiHand st') < suitCount b (aiHand st')))"
    by blast
  have g: "status loneEightState = Playing" "currentTurn loneEightState = AI"
    "playableCards (aiHand loneEightState) (topCard loneEightState) (wildSuit loneEightState)
       = Inr [mkCard SPADES EIGHT False]"
    by (simp_all add: loneEightState_def mkState_def mkCard_def topCard_def isPlayable_def)
  have u: "filter (\<lambda>c. card_id c \<noteq> card_id (cardToPlay [mkCard SPADES EIGHT False]))
             (aiHand loneEightState) = []"
    by (simp add: loneEightState_def mkState_def mkCard_def cardToPlay_def)
  from aiTurn_eight_wild_suit [OF g h(4) h(5)] obtain st2 b2 where r2:
    "aiTurn loneEightState = Inr st2"
    "aiHand st2 = filter (\<lambda>c. card_id c \<noteq> card_id (cardToPlay [mkCard SPADES EIGHT False]))
                    (aiHand loneEightState)"
    "wildSuit st2 = Some b2"
    "aiHand st2 = [] \<longrightarrow> b2 = SPADES"
    by blast
  from r2 u have second: "\<exists>st'. aiTurn loneEightState = Inr st' \<and> aiHand st' = []
      \<and> wildSuit st' = Some SPADES" by simp
  from h g first second show ?thesis by blast
qed

text \<open>C9: the state that \<open>initGame\<close> makes from a created deck holds one full pack in
  its deck, two hands and discard pile together: 52 cards, each of the 52 (suit, rank)
  pairs on exactly one card, and no card id twice. \<open>handleDraw\<close>, \<open>playCard\<close>,
  \<open>handleSuitSelect\<close> and the opponent's turn keep this property, since they only move
  cards between the four collections. With a non-empty discard pile \<open>playCard\<close> and the
  opponent's turn always return a state, and the discard pile stays non-empty.\<close>

theorem pack_invariant:
  "(isCreatedDeck d \<longrightarrow>
      (\<exists>st. initGame d = Some (Inr st) \<and> fullPack (allCards st) \<and> discardPile st \<noteq> []))
   \<and> (fullPack cs \<longrightarrow>
        length cs = 52 \<and> distinct (map card_id cs)
        \<and> (\<forall>s r. length (filter (\<lambda>c. suit c = s \<and> rank c = r) cs) = 1))
   \<and> (fullPack (allCards st) \<longrightarrow>
        fullPack (allCards (handleDraw st))
        \<and> fullPack (allCards (handleSuitSelect st s))
        \<and> (\<forall>st'. playCard st cardId = Inr st' \<longrightarrow> fullPack (allCards st'))
        \<and> (\<forall>st'. aiTurn st = Inr st' \<longrightarrow> fullPack (allCards st')))
   \<and> (fullPack (allCards st) \<and> discardPile st \<noteq> [] \<longrightarrow>
        discardPile (handleDraw st) \<noteq> []
        \<and> discardPile (handleSuitSelect st s) \<noteq> []
        \<and> (\<exists>st'. playCard st cardId = Inr st' \<and> discardPile st' \<noteq> [])
        \<and> (\<exists>st'. aiTurn st = Inr st' \<and> discardPile st' \<noteq> []))"
proof (intro conjI impI)
  assume cd: "isCreatedDeck d"
  from initGame_created [OF cd] obtain st0 c where
    st0: "initGame d = Some (Inr st0)" "discardPile st0 = [c]"
    "mset (map cardKey (allCards st0)) = mset (map cardKey d)"
    "mset (map card_id (allCards st0)) = mset (map card_id d)" by blast
  from fullPack_cong [OF st0(3) st0(4)] created_fullPack [OF cd]
  have "fullPack (allCards st0)" by simp
  with st0 show "\<exists>st. initGame d = Some (Inr st) \<and> fullPack (allCards st)
      \<and> discardPile st \<noteq> []" by auto
next
  assume "fullPack cs"
  then show "length cs = 52" by (rule fullPack_meaning(1))
next
  assume "fullPack cs"
  then show "distinct (map card_id cs)" by (simp add: fullPack_def)
next
  assume "fullPack cs"
  then show "\<forall>s r. length (filter (\<lambda>c. suit c = s \<and> rank c = r) cs) = 1"
    using fullPack_meaning(2) by blast
next
  assume "fullPack (allCards st)"
  then show "fullPack (allCards (handleDraw st))" by (rule handleDraw_pack)
next
  assume "fullPack (allCards st)"
  then show "fullPack (allCards (handleSuitSelect st s))"
    by (simp add: handleSuitSelect_pack)
next
  assume "fullPack (allCards st)"
  then show "\<forall>st'. playCard st cardId = Inr st' \<longrightarrow> fullPack (allCards st')"
    using playCard_pack_any by blast
next
  assume "fullPack (allCards st)"
  then show "\<forall>st'. aiTurn st = Inr st' \<longrightarrow> fullPack (allCards st')"
    using aiTurn_pack_any by blast
next
  assume "fullPack (allCards st) \<and> discardPile st \<noteq> []"
  then show "discardPile (handleDraw st) \<noteq> []" by (simp add: handleDraw_pile)
next
  assume "fullPack (allCards st) \<and> discardPile st \<noteq> []"
  then show "discardPile (handleSuitSelect st s) \<noteq> []"
    by (simp add: handleSuitSelect_pack)
next
  assume "fullPack (allCards st) \<and> discardPile st \<noteq> []"
  then show "\<exists>st'. playCard st cardId = Inr st' \<and> discardPile st' \<noteq> []"
    using playCard_pack by blast
next
  assume "fullPack (allCards st) \<and> discardPile st \<noteq> []"
  then show "\<exists>st'. aiTurn st = Inr st' \<and> discardPile st' \<noteq> []"
    using aiTurn_pack by blast
qed

theorem pack_invariant_witness:
  "isCreatedDeck exampleDeck
   \<and> initGame exampleDeck = Some (Inr exampleStart)
   \<and> fullPack (allCards exampleStart) \<and> discardPile exampleStart \<noteq> []
   \<and> length (allCards exampleStart) = 52
   \<and> fullPack (allCards (handleDraw exampleStart))
   \<and> fullPack (allCards (handleSuitSelect exampleStart DIAMONDS))
   \<and> (\<exists>st'. playCard exampleStart ''8-hearts'' = Inr st' \<and> fullPack (allCards st'))
   \<and> (\<exists>st'. aiTurn (handleDraw exampleStart) = Inr st' \<and> fullPack (allCards st'))"
proof -
  have cd: "isCreatedDeck exampleDeck"
    by (simp add: isCreatedDeck_def exampleDeck_def eightFirst_def eightLast_def RANKS_def
        SUITS_def allPairs_def mkCard_def cardKey_def)
  have run: "initGame exampleDeck = Some (Inr exampleStart)"
    by (simp add: initGame_def exampleDeck_def exampleStart_def eightFirst_def eightLast_def
        RANKS_def mkCard_def mkState_def seedLoop.simps)
  have n0: "discardPile exampleStart \<noteq> []"
    by (simp add: exampleStart_def mkState_def)
  from pack_invariant [where d = exampleDeck] cd run
  have p0: "fullPack (allCards exampleStart)" by auto
  note at0 = pack_invariant [where st = exampleStart and s = DIAMONDS
      and cardId = "''8-hearts''" and cs = "allCards exampleStart"]
  from at0 p0 n0 have l0: "length (allCards exampleStart) = 52"
    and p1: "fullPack (allCards (handleDraw exampleStart))"
    and n1: "discardPile (handleDraw exampleStart) \<noteq> []"
    and p2: "fullPack (allCards (handleSuitSelect exampleStart DIAMONDS))"
    and p3: "\<exists>st'. playCard exampleStart ''8-hearts'' = Inr st' \<and> fullPack (allCards st')"
    by blast+
  from pack_invariant [where st = "handleDraw exampleStart"] p1 n1
  have p4: "\<exists>st'. aiTurn (handleDraw exampleStart) = Inr st' \<and> fullPack (allCards st')"
    by blast
  from cd run p0 n0 l0 p1 p2 p3 p4 show ?thesis by blast
qed

text \<open>C10: \<open>initGame\<close> returns a state exactly when the cards left after dealing the two
  hands are some cards \<open>pre\<close>, a card \<open>c\<close> that is not an EIGHT and then only EIGHTs. The
  first discard is then \<open>c\<close>, face up, and the deck of the state is those EIGHTs, put back
  at the bottom (the front), followed by \<open>pre\<close>: each popped EIGHT went back under the
  remaining deck and the next card was popped, until the card was not an EIGHT. So in every
  state that \<open>initGame\<close> returns the top card of the discard pile is not an EIGHT, and for
  every created deck the loop ends and \<open>initGame\<close> returns a state.\<close>

theorem initGame_seed_not_eight:
  "(initGame d = Some (Inr st) \<longleftrightarrow>
      (\<exists>pre c eights.
          drop 16 d = pre @ c # eights \<and> rank c \<noteq> EIGHT
          \<and> (\<forall>e \<in> set eights. rank e = EIGHT)
          \<and> st = \<lparr>deck = eights @ pre,
                   playerHand = map (\<lambda>x. x\<lparr>isFaceUp := True\<rparr>) (take 8 d),
                   aiHand = map (\<lambda>x. x\<lparr>isFaceUp := False\<rparr>) (take 8 (drop 8 d)),
                   discardPile = [c\<lparr>isFaceUp := True\<rparr>],
                   currentTurn = Player, status = Playing, wildSuit = None,
                   lastAction = ''Game started! Your turn.'',
                   hint = Some ''Match the suit or rank of the top card.''\<rparr>))
   \<and> (initGame d = Some (Inr st) \<longrightarrow>
        (\<exists>c. discardPile st = [c] \<and> topCard st = Some c \<and> rank c \<noteq> EIGHT \<and> isFaceUp c))
   \<and> (isCreatedDeck d \<longrightarrow> (\<exists>st'. initGame d = Some (Inr st')))"
proof (intro conjI impI iffI)
  assume run: "initGame d = Some (Inr st)"
  from initGame_non_eight [OF run] split_list_last_prop [of "drop 16 d" "\<lambda>x. rank x \<noteq> EIGHT"]
  obtain pre c eights where dec: "drop 16 d = pre @ c # eights" "rank c \<noteq> EIGHT"
    "\<forall>e \<in> set eights. rank e = EIGHT" by auto
  from initGame_exact [OF dec] run dec
  show "\<exists>pre c eights.
      drop 16 d = pre @ c # eights \<and> rank c \<noteq> EIGHT
      \<and> (\<forall>e \<in> set eights. rank e = EIGHT)
      \<and> st = \<lparr>deck = eights @ pre,
               playerHand = map (\<lambda>x. x\<lparr>isFaceUp := True\<rparr>) (take 8 d),
               aiHand = map (\<lambda>x. x\<lparr>isFaceUp := False\<rparr>) (take 8 (drop 8 d)),
               discardPile = [c\<lparr>isFaceUp := True\<rparr>],
               currentTurn = Player, status = Playing, wildSuit = None,
               lastAction = ''Game started! Your turn.'',
               hint = Some ''Match the suit or rank of the top card.''\<rparr>"
    by (intro exI [of _ pre] exI [of _ c] exI [of _ eights]) simp
next
  assume "\<exists>pre c eights.
      drop 16 d = pre @ c # eights \<and> rank c \<noteq> EIGHT
      \<and> (\<forall>e \<in> set eights. rank e = EIGHT)
      \<and> st = \<lparr>deck = eights @ pre,
               playerHand = map (\<lambda>x. x\<lparr>isFaceUp := True\<rparr>) (take 8 d),
               aiHand = map (\<lambda>x. x\<lparr>isFaceUp := False\<rparr>) (take 8 (drop 8 d)),
               discardPile = [c\<lparr>isFaceUp := True\<rparr>],
               currentTurn = Player, status = Playing, wildSuit = None,
               lastAction = ''Game started! Your turn.'',
               hint = Some ''Match the suit or rank of the top card.''\<rparr>"
  then show "initGame d = Some (Inr st)" using initGame_exact by blast
next
  assume "initGame d = Some (Inr st)"
  from initGame_result [OF this]
  show "\<exists>c. discardPile st = [c] \<and> topCard st = Some c \<and> rank c \<noteq> EIGHT \<and> isFaceUp c"
    by (auto simp: topCard_def)
next
  assume "isCreatedDeck d"
  from initGame_created [OF this] show "\<exists>st'. initGame d = Some (Inr st')" by blast
qed

theorem initGame_seed_not_eight_witness:
  "drop 16 exampleDeck
     = (map (\<lambda>r. mkCard DIAMONDS r False)
          [FOUR, FIVE, SIX, SEVEN, EIGHT, NINE, TEN, JACK, QUEEN, KING]
        @ map (\<lambda>r. mkCard CLUBS r False) RANKS
        @ map (\<lambda>r. mkCard SPADES r False)
          [ACE, TWO, THREE, FOUR, FIVE, SIX, SEVEN, NINE, TEN, JACK, QUEEN])
       @ mkCard SPADES KING False # [mkCard SPADES EIGHT False]
   \<and> rank (mkCard SPADES KING False) \<noteq> EIGHT
   \<and> rank (mkCard SPADES EIGHT False) = EIGHT
   \<and> isCreatedDeck exampleDeck
   \<and> initGame exampleDeck = Some (Inr exampleStart)
   \<and> deck exampleStart = mkCard SPADES EIGHT False # butlast (butlast (drop 16 exampleDeck))
   \<and> topCard exampleStart = Some (mkCard SPADES KING True)
   \<and> (\<exists>c. discardPile exampleStart = [c] \<and> topCard exampleStart = Some c
          \<and> rank c \<noteq> EIGHT \<and> isFaceUp c)
   \<and> (\<exists>st'. initGame exampleDeck = Some (Inr st'))"
proof -
  let ?pre = "map (\<lambda>r. mkCard DIAMONDS r False)
          [FOUR, FIVE, SIX, SEVEN, EIGHT, NINE, TEN, JACK, QUEEN, KING]
        @ map (\<lambda>r. mkCard CLUBS r False) RANKS
        @ map (\<lambda>r. mkCard SPADES r False)
          [ACE, TWO, THREE, FOUR, FIVE, SIX, SEVEN, NINE, TEN, JACK, QUEEN]"
  have dec: "drop 16 exampleDeck = ?pre @ mkCard SPADES KING False # [mkCard SPADES EIGHT False]"
    by (simp add: exampleDeck_def eightFirst_def eightLast_def RANKS_def)
  have r: "rank (mkCard SPADES KING False) \<noteq> EIGHT"
    "\<forall>e \<in> set [mkCard SPADES EIGHT False]. rank e = EIGHT"
    "rank (mkCard SPADES EIGHT False) = EIGHT"
    by (simp_all add: mkCard_def)
  have cd: "isCreatedDeck exampleDeck"
    by (simp add: isCreatedDeck_def exampleDeck_def eightFirst_def eightLast_def RANKS_def
        SUITS_def allPairs_def mkCard_def cardKey_def)
  have st: "exampleStart = \<lparr>deck = [mkCard SPADES EIGHT False] @ ?pre,
      playerHand = map (\<lambda>x. x\<lparr>isFaceUp := True\<rparr>) (take 8 exampleDeck),
      aiHand = map (\<lambda>x. x\<lparr>isFaceUp := False\<rparr>) (take 8 (drop 8 exampleDeck)),
      discardPile = [(mkCard SPADES KING False)\<lparr>isFaceUp := True\<rparr>],
      currentTurn = Player, status = Playing, wildSuit = None,
      lastAction = ''Game started! Your turn.'',
      hint = Some ''Match the suit or rank of the top card.''\<rparr>"
    by (simp add: exampleStart_def exampleDeck_def eightFirst_def eightLast_def RANKS_def
        mkState_def mkCard_def)
  note inst = initGame_seed_not_eight [of exampleDeck exampleStart]
  from inst dec r st have run: "initGame exampleDeck = Some (Inr exampleStart)"
    by blast
  from inst run have top: "\<exists>c. discardPile exampleStart = [c] \<and> topCard exampleStart = Some c
      \<and> rank c \<noteq> EIGHT \<and> isFaceUp c" by blast
  from inst cd have ret: "\<exists>st'. initGame exampleDeck = Some (Inr st')" by blast
  have v: "deck exampleStart = mkCard SPADES EIGHT False # butlast (butlast (drop 16 exampleDeck))"
    "topCard exampleStart = Some (mkCard SPADES KING True)"
    by (simp_all add: dec butlast_append) (simp_all add: exampleStart_def mkState_def topCard_def)
  from dec r cd run v top ret show ?thesis by blast
qed

end
